theory Spec2Isabelle
  imports Main "HOL-Library.Word" "HOL-Library.Sublist"
begin

section \<open>Common JavaScript notions\<close>

text \<open>
  The sources are Node.js scripts. Bytes of a \<^verbatim>\<open>Buffer\<close> or \<^verbatim>\<open>Uint8Array\<close> are 8-bit words;
  JavaScript numbers that hold sums of 32-bit header fields are exact integers, so they are
  modelled by \<^typ>\<open>int\<close>. An exception thrown by a library call is a value of \<open>js_error\<close>
  on the left of a sum.
\<close>

type_synonym byte = "8 word"

datatype js_error = RangeError | TypeError

text \<open>\<^verbatim>\<open>s.includes(sub)\<close>: \<open>sub\<close> occurs in \<open>s\<close> as a contiguous substring.\<close>

fun str_includes :: "string \<Rightarrow> string \<Rightarrow> bool" where
  "str_includes [] sub = (sub = [])"
| "str_includes (c # cs) sub = (prefix sub (c # cs) \<or> str_includes cs sub)"

text \<open>Sequencing of calls that may throw: the first exception ends the computation.\<close>

definition thenE :: "'e + 'a \<Rightarrow> ('a \<Rightarrow> 'e + 'b) \<Rightarrow> 'e + 'b" where
  "thenE r f = (case r of Inl e \<Rightarrow> Inl e | Inr x \<Rightarrow> f x)"

text \<open>\<^verbatim>\<open>buffer[i]\<close> on a typed array: \<^verbatim>\<open>undefined\<close> (here \<open>None\<close>) past the end.\<close>

definition byteAt :: "byte list \<Rightarrow> nat \<Rightarrow> byte option" where
  "byteAt buffer i = (if i < length buffer then Some (buffer ! i) else None)"

section \<open>The texture-container header reader (worker script, \<^verbatim>\<open>parseKTXHeader\<close>)\<close>

definition KTX_IDENTIFIER_1 :: "byte list" where
  "KTX_IDENTIFIER_1 =
     [0xAB, 0x4B, 0x54, 0x58, 0x20, 0x31, 0x31, 0xBB, 0x0D, 0x0A, 0x1A, 0x0A]"

definition KTX_IDENTIFIER_2 :: "byte list" where
  "KTX_IDENTIFIER_2 =
     [0xAB, 0x4B, 0x54, 0x58, 0x20, 0x32, 0x30, 0xBB, 0x0D, 0x0A, 0x1A, 0x0A]"

text \<open>
  \<^verbatim>\<open>dataView.getUint32(off, true)\<close>: the four bytes from \<open>off\<close>, least significant first;
  a \<^verbatim>\<open>RangeError\<close> when they do not all lie inside the view.
\<close>

definition leValue :: "byte list \<Rightarrow> nat" where
  "leValue bs = foldr (\<lambda>b acc. unat b + 256 * acc) bs 0"

definition getUint32 :: "byte list \<Rightarrow> nat \<Rightarrow> js_error + nat" where
  "getUint32 buffer off =
     (if off + 4 \<le> length buffer
      then Inr (leValue (take 4 (drop off buffer)))
      else Inl RangeError)"

record ktxHeader =
  pixelWidth :: nat
  pixelHeight :: nat

text \<open>
  The loop \<^verbatim>\<open>for (i = 0; i < KTX_IDENTIFIERS[0].length; ++i)\<close> with its two flags
  \<^verbatim>\<open>isKTX1\<close>, \<^verbatim>\<open>isKTX2\<close>, both \<^verbatim>\<open>true\<close> at the start.
\<close>

definition ktxFlagStep :: "byte list \<Rightarrow> nat \<Rightarrow> bool \<times> bool \<Rightarrow> bool \<times> bool" where
  "ktxFlagStep buffer i flags =
     (let isKTX1 = (if byteAt buffer i \<noteq> Some (KTX_IDENTIFIER_1 ! i) then False else fst flags);
          isKTX2 = (if byteAt buffer i \<noteq> Some (KTX_IDENTIFIER_2 ! i) then False else snd flags)
      in (isKTX1, isKTX2))"

definition ktxFlags :: "byte list \<Rightarrow> bool \<times> bool" where
  "ktxFlags buffer = fold (ktxFlagStep buffer) [0 ..< length KTX_IDENTIFIER_1] (True, True)"

definition isKTX1 :: "byte list \<Rightarrow> bool" where
  "isKTX1 buffer = fst (ktxFlags buffer)"

definition isKTX2 :: "byte list \<Rightarrow> bool" where
  "isKTX2 buffer = snd (ktxFlags buffer)"

text \<open>
  \<^verbatim>\<open>parseKTXHeader\<close>. The argument is typed as a byte array, so the \<^verbatim>\<open>instanceof\<close> guard
  of the source cannot fire. \<open>Inr None\<close> is the source's \<^verbatim>\<open>return null\<close>; \<open>Inl\<close> an
  exception of \<^verbatim>\<open>getUint32\<close>. In the object literal the width is read before the height.
\<close>

definition parseKTXHeader :: "byte list \<Rightarrow> js_error + ktxHeader option" where
  "parseKTXHeader buffer =
     (if isKTX1 buffer then
        (case getUint32 buffer 36 of
           Inl e \<Rightarrow> Inl e
         | Inr w \<Rightarrow> (case getUint32 buffer 40 of
                      Inl e \<Rightarrow> Inl e
                    | Inr h \<Rightarrow> Inr (Some \<lparr>pixelWidth = w, pixelHeight = h\<rparr>)))
      else if isKTX2 buffer then
        (case getUint32 buffer 20 of
           Inl e \<Rightarrow> Inl e
         | Inr w \<Rightarrow> (case getUint32 buffer 24 of
                      Inl e \<Rightarrow> Inl e
                    | Inr h \<Rightarrow> Inr (Some \<lparr>pixelWidth = w, pixelHeight = h\<rparr>)))
      else Inr None)"

text \<open>The little-endian value of the four bytes at \<open>off\<close>, written out.\<close>

definition le32 :: "byte list \<Rightarrow> nat \<Rightarrow> nat" where
  "le32 buffer off =
     unat (buffer ! off) + 2 ^ 8 * unat (buffer ! (off + 1))
       + 2 ^ 16 * unat (buffer ! (off + 2)) + 2 ^ 24 * unat (buffer ! (off + 3))"

section \<open>The optimisation-state inspector (worker script)\<close>

text \<open>
  The scene document belongs to the external scene library; the worker reads two things of
  it: the names of the extensions in use and the textures, each with its image bytes (or
  \<^verbatim>\<open>null\<close>) and its MIME type (the empty string when there is none).
\<close>

record texture =
  getImage :: "byte list option"
  getMimeType :: string

record document =
  listExtensionsUsed :: "string list"
  listTextures :: "texture list"

text \<open>A dimension is a pixel count or the string \<^verbatim>\<open>'unknown'\<close>.\<close>

datatype dimension = Unknown | Pixels nat

record textureInfo =
  resWidth :: dimension
  resHeight :: dimension
  encoding :: string

text \<open>
  \<^verbatim>\<open>getTextureInfo\<close>. \<open>loadImage\<close> is the external generic image reader; \<open>None\<close> is
  its rejection, which the \<^verbatim>\<open>try\<close> block swallows, as it swallows an exception of
  \<^verbatim>\<open>parseKTXHeader\<close>. The image is typed as a byte array, so the early return for an
  unexpected image type cannot be taken. The result's \<^verbatim>\<open>resolution\<close> string
  \<^verbatim>\<open>`${width}x${height}`\<close> is kept as its two parts.
\<close>

definition getTextureInfo :: "(byte list \<Rightarrow> (nat \<times> nat) option) \<Rightarrow> texture \<Rightarrow> textureInfo" where
  "getTextureInfo loadImage texture =
     (let mimeType = getMimeType texture;
          initial = \<lparr>resWidth = Unknown, resHeight = Unknown, encoding = ''unknown''\<rparr>;
          measured =
            (case getImage texture of
               None \<Rightarrow> initial
             | Some imageData \<Rightarrow>
                 if str_includes mimeType ''ktx'' then
                   (case parseKTXHeader imageData of
                      Inr (Some ktxHeader) \<Rightarrow>
                        \<lparr>resWidth = Pixels (pixelWidth ktxHeader),
                         resHeight = Pixels (pixelHeight ktxHeader), encoding = ''KTX''\<rparr>
                    | Inr None \<Rightarrow> initial
                    | Inl e \<Rightarrow> initial)
                 else
                   (case loadImage imageData of
                      Some (w, h) \<Rightarrow> initial\<lparr>resWidth := Pixels w, resHeight := Pixels h\<rparr>
                    | None \<Rightarrow> initial))
      in if mimeType \<noteq> [] then
           (if str_includes mimeType ''jpeg'' then measured\<lparr>encoding := ''JPG''\<rparr>
            else if str_includes mimeType ''png'' then measured\<lparr>encoding := ''PNG''\<rparr>
            else if str_includes mimeType ''ktx'' then measured\<lparr>encoding := ''KTX''\<rparr>
            else measured)
         else measured)"


record textureStat =
  format :: string
  width :: dimension
  height :: dimension

record modelStatistics =
  dracoCompression :: bool
  textures :: "textureStat list"

text \<open>
  \<^verbatim>\<open>getModelStatistics\<close>. The \<^verbatim>\<open>forEach\<close> over the extensions sets the flag at each
  match. The triangle count, which nothing else reads, is left out.
\<close>

definition getModelStatistics ::
    "(byte list \<Rightarrow> (nat \<times> nat) option) \<Rightarrow> document \<Rightarrow> modelStatistics" where
  "getModelStatistics loadImage doc =
     \<lparr>dracoCompression =
        fold (\<lambda>ext flag. if ext = ''KHR_draco_mesh_compression'' then True else flag)
          (listExtensionsUsed doc) False,
      textures =
        map (\<lambda>textureInfo.
               \<lparr>format = encoding textureInfo,
                width = resWidth textureInfo,
                height = resHeight textureInfo\<rparr>)
          (map (getTextureInfo loadImage) (listTextures doc))\<rparr>"

section \<open>The planner (worker script, \<^verbatim>\<open>compress\<close>, transform selection)\<close>

datatype transform = Toktx | Draco

definition hasKTXTexture :: "modelStatistics \<Rightarrow> bool" where
  "hasKTXTexture originalStats = list_ex (\<lambda>texture. format texture = ''KTX'') (textures originalStats)"

text \<open>
  The list \<^verbatim>\<open>transforms\<close> that \<^verbatim>\<open>compress(file, dracoCompression, ktx)\<close> builds from the
  statistics: the texture step is pushed first, the mesh step second.
\<close>

definition planTransforms :: "modelStatistics \<Rightarrow> bool \<Rightarrow> bool \<Rightarrow> transform list" where
  "planTransforms originalStats dracoRequested ktx =
     (if ktx \<and> \<not> hasKTXTexture originalStats then [Toktx] else []) @
     (if dracoRequested \<and> \<not> dracoCompression originalStats then [Draco] else [])"

text \<open>
  \<^verbatim>\<open>document.transform(...transforms)\<close> runs the selected transforms in order. The two
  transforms are functions of the external scene library, passed as parameters.
\<close>

definition applyTransform ::
    "(document \<Rightarrow> document) \<Rightarrow> (document \<Rightarrow> document) \<Rightarrow> transform \<Rightarrow> document \<Rightarrow> document" where
  "applyTransform toktx draco t doc = (case t of Toktx \<Rightarrow> toktx doc | Draco \<Rightarrow> draco doc)"

definition transformDocument ::
    "(document \<Rightarrow> document) \<Rightarrow> (document \<Rightarrow> document) \<Rightarrow> transform list \<Rightarrow> document \<Rightarrow> document" where
  "transformDocument toktx draco transforms doc = fold (applyTransform toktx draco) transforms doc"

text \<open>
  After the transforms the worker serialises the document with \<^verbatim>\<open>io.writeBinary\<close> and
  writes the bytes to the output file; the next run on that file reads it into a new
  document (\<^verbatim>\<open>io.read\<close>) and inspects that one. Writing and reading back belong to the
  external scene library; their composition is the parameter \<open>reread\<close> of \<open>workerRun\<close>
  below.

  Modelled from the spec: the two transforms of the external scene library, which is not
  part of the repository. Texture compression re-encodes each texture image into the target
  compressed format, so every texture comes out with the MIME type of that format; mesh
  compression makes the scene declare the mesh-compression extension. Of the write and the
  read the spec gives only the signatures. The stand-in \<open>reread_model\<close>, used at the
  concrete scenes only, takes the written file to hold the scene as it is, except that it
  declares the mesh-compression extension only when a primitive was there to be
  compressed; whether the scene has such a primitive is not among the things the worker's
  statistics keep, so it is the first argument of \<open>reread_model\<close>.
\<close>

definition toktx_model :: "document \<Rightarrow> document" where
  "toktx_model doc =
     doc\<lparr>listTextures := map (\<lambda>t. t\<lparr>getMimeType := ''image/ktx2''\<rparr>) (listTextures doc)\<rparr>"

definition draco_model :: "document \<Rightarrow> document" where
  "draco_model doc =
     (if ''KHR_draco_mesh_compression'' \<in> set (listExtensionsUsed doc) then doc
      else doc\<lparr>listExtensionsUsed := listExtensionsUsed doc @ [''KHR_draco_mesh_compression'']\<rparr>)"




section \<open>The worker's report (worker script, \<^verbatim>\<open>compress\<close>)\<close>

text \<open>
  What one call of \<^verbatim>\<open>compress(file, dracoCompression, ktx)\<close> meets outside the script:
  whether the file exists; an exception raised while the container is read
  (\<^verbatim>\<open>readFileSync\<close>, \<^verbatim>\<open>readInt32LE\<close>), with its message; the document that the library
  reads, \<open>None\<close> when the read is rejected or the file has none of the three extensions;
  the outcome of \<^verbatim>\<open>document.transform\<close>, which is whether the call is rejected and the
  document it leaves behind; the bytes that \<^verbatim>\<open>io.writeBinary\<close> returns, \<open>None\<close> when
  it is rejected; an exception raised while the output is written or the input removed
  (\<^verbatim>\<open>writeFileSync\<close>, \<^verbatim>\<open>unlinkSync\<close>); and the elapsed time as \<^verbatim>\<open>toFixed(2)\<close> prints it.
\<close>

record job =
  existsSync :: bool
  readThrows :: "string option"
  readDocument :: "document option"
  documentTransform :: "transform list \<Rightarrow> document \<Rightarrow> bool \<times> document"
  writeBinary :: "document \<Rightarrow> byte list option"
  writeThrows :: "string option"
  executionTime :: string

definition errorMessage :: "string \<Rightarrow> string \<Rightarrow> string" where
  "errorMessage file reason = ''Error processing '' @ file @ '': '' @ reason"

definition completionMessage :: "string \<Rightarrow> bool \<Rightarrow> bool \<Rightarrow> string" where
  "completionMessage time ktxApplied dracoApplied =
     '', Execution time: '' @ time @ ''s. '' @
     (if ktxApplied then ''KTX Applied'' else ''KTX Not Applied'') @ ''. '' @
     (if dracoApplied then ''Draco Applied'' else ''Draco Not Applied'')"

text \<open>
  The document that the worker serialises: the one left by \<^verbatim>\<open>document.transform\<close> when
  the plan is not empty, whether or not that call was rejected (the rejection is caught and
  logged), and the document as read otherwise.
\<close>

definition documentWritten ::
    "(byte list \<Rightarrow> (nat \<times> nat) option) \<Rightarrow> bool \<Rightarrow> bool \<Rightarrow> job \<Rightarrow> document \<Rightarrow> document" where
  "documentWritten loadImage dracoRequested ktx j doc =
     (let transforms = planTransforms (getModelStatistics loadImage doc) dracoRequested ktx
      in if transforms \<noteq> [] then snd (documentTransform j transforms doc) else doc)"

text \<open>
  \<^verbatim>\<open>compress\<close> as far as its report goes: the message handed to \<^verbatim>\<open>process.send\<close> and the
  exit code. The flags \<^verbatim>\<open>ktxApplied\<close> and \<^verbatim>\<open>dracoApplied\<close> are set where the transform
  is pushed.
\<close>

definition compress_worker ::
    "(byte list \<Rightarrow> (nat \<times> nat) option) \<Rightarrow> string \<Rightarrow> bool \<Rightarrow> bool \<Rightarrow> job \<Rightarrow> string \<times> int" where
  "compress_worker loadImage file dracoRequested ktx j =
     (if \<not> existsSync j then (errorMessage file ''File does not exist.'', 1)
      else
        (case readThrows j of
           Some message \<Rightarrow> (errorMessage file message, 1)
         | None \<Rightarrow>
             (case readDocument j of
                None \<Rightarrow> (errorMessage file ''Failed to read the file.'', 1)
              | Some doc \<Rightarrow>
                  (let originalStats = getModelStatistics loadImage doc;
                       ktxApplied = (ktx \<and> \<not> hasKTXTexture originalStats);
                       dracoApplied = (dracoRequested \<and> \<not> dracoCompression originalStats)
                   in case writeBinary j (documentWritten loadImage dracoRequested ktx j doc) of
                        None \<Rightarrow> (errorMessage file ''Failed to write GLB file.'', 1)
                      | Some glbBuffer \<Rightarrow>
                          (case writeThrows j of
                             Some message \<Rightarrow> (errorMessage file message, 1)
                           | None \<Rightarrow>
                               (completionMessage (executionTime j) ktxApplied dracoApplied,
                                0))))))"

text \<open>
  The runs that end with the success line: the file exists, is read into a document, and
  the document is written; the outcome of the transforms is not among the conditions.
\<close>

definition reportsSuccess ::
    "(byte list \<Rightarrow> (nat \<times> nat) option) \<Rightarrow> bool \<Rightarrow> bool \<Rightarrow> job \<Rightarrow> bool" where
  "reportsSuccess loadImage dracoRequested ktx j =
     (existsSync j \<and> readThrows j = None \<and> writeThrows j = None \<and>
      (case readDocument j of
         None \<Rightarrow> False
       | Some doc \<Rightarrow> writeBinary j (documentWritten loadImage dracoRequested ktx j doc) \<noteq> None))"

section \<open>The tile container codec (\<^verbatim>\<open>compress.js\<close>, container branch of \<^verbatim>\<open>compress\<close>)\<close>

text \<open>
  \<^verbatim>\<open>buf.readInt32LE(off)\<close>: the four bytes from \<open>off\<close> as a two's-complement number; a
  \<^verbatim>\<open>RangeError\<close> when they do not all lie inside the buffer.
\<close>

definition readInt32LE :: "byte list \<Rightarrow> nat \<Rightarrow> js_error + int" where
  "readInt32LE buffer off =
     (if off + 4 \<le> length buffer
      then (let u = leValue (take 4 (drop off buffer))
            in Inr (if u < 2 ^ 31 then int u else int u - 2 ^ 32))
      else Inl RangeError)"

text \<open>The value that a successful read at \<open>off\<close> returns, and the range of such values.\<close>

definition fieldAt :: "byte list \<Rightarrow> nat \<Rightarrow> int" where
  "fieldAt buffer off =
     (let u = leValue (take 4 (drop off buffer))
      in if u < 2 ^ 31 then int u else int u - 2 ^ 32)"

definition isInt32 :: "int \<Rightarrow> bool" where
  "isInt32 v = (- (2 ^ 31) \<le> v \<and> v < 2 ^ 31)"

text \<open>The four bytes of a 32-bit two's-complement number, least significant first.\<close>

definition int32Bytes :: "int \<Rightarrow> byte list" where
  "int32Bytes v =
     [word_of_int v, word_of_int (v div 2 ^ 8), word_of_int (v div 2 ^ 16), word_of_int (v div 2 ^ 24)]"

text \<open>
  \<^verbatim>\<open>buf.writeInt32LE(v, off)\<close>: a \<^verbatim>\<open>RangeError\<close> when \<open>v\<close> is not a 32-bit signed value or
  the four bytes do not fit; otherwise the buffer with these four bytes replaced.
\<close>

definition writeInt32LE :: "byte list \<Rightarrow> int \<Rightarrow> nat \<Rightarrow> js_error + byte list" where
  "writeInt32LE buffer v off =
     (if v < - (2 ^ 31) \<or> 2 ^ 31 \<le> v \<or> length buffer < off + 4 then Inl RangeError
      else Inr (take off buffer @ int32Bytes v @ drop (off + 4) buffer))"

text \<open>
  \<^verbatim>\<open>buf.subarray(start, end)\<close>: a negative index counts from the end of the buffer, every
  index is clamped into the buffer, and an end before the start gives the empty slice
  (the subtraction on \<^typ>\<open>nat\<close> stops at 0). \<^verbatim>\<open>buf.subarray(start)\<close> runs to the end.
\<close>

definition clampIndex :: "nat \<Rightarrow> int \<Rightarrow> nat" where
  "clampIndex len i = (if i < 0 then nat (max (int len + i) 0) else nat (min i (int len)))"

definition subarray :: "'a list \<Rightarrow> int \<Rightarrow> int \<Rightarrow> 'a list" where
  "subarray buffer start fin =
     (let b = clampIndex (length buffer) start;
          e = clampIndex (length buffer) fin
      in take (e - b) (drop b buffer))"

definition subarrayFrom :: "'a list \<Rightarrow> int \<Rightarrow> 'a list" where
  "subarrayFrom buffer start = drop (clampIndex (length buffer) start) buffer"

record b3dmHeader =
  magic :: int
  version :: int
  byteLength :: int
  featureTableJSONByteLength :: int
  featureTableBinaryByteLength :: int
  batchTableJSONByteLength :: int
  batchTableBinaryByteLength :: int

definition readHeader :: "byte list \<Rightarrow> js_error + b3dmHeader" where
  "readHeader arrayBuffer =
     thenE (readInt32LE arrayBuffer 0) (\<lambda>magic.
     thenE (readInt32LE arrayBuffer 4) (\<lambda>version.
     thenE (readInt32LE arrayBuffer 8) (\<lambda>byteLength.
     thenE (readInt32LE arrayBuffer 12) (\<lambda>featureTableJSONByteLength.
     thenE (readInt32LE arrayBuffer 16) (\<lambda>featureTableBinaryByteLength.
     thenE (readInt32LE arrayBuffer 20) (\<lambda>batchTableJSONByteLength.
     thenE (readInt32LE arrayBuffer 24) (\<lambda>batchTableBinaryByteLength.
       Inr \<lparr>magic = magic, version = version, byteLength = byteLength,
            featureTableJSONByteLength = featureTableJSONByteLength,
            featureTableBinaryByteLength = featureTableBinaryByteLength,
            batchTableJSONByteLength = batchTableJSONByteLength,
            batchTableBinaryByteLength = batchTableBinaryByteLength\<rparr>)))))))"

text \<open>The offsets and lengths that the source derives from the header fields.\<close>

definition featureTableStart :: int where
  "featureTableStart = 28"

definition featureTableLength :: "b3dmHeader \<Rightarrow> int" where
  "featureTableLength h = featureTableJSONByteLength h + featureTableBinaryByteLength h"

definition batchTableStart :: "b3dmHeader \<Rightarrow> int" where
  "batchTableStart h =
     featureTableStart + featureTableJSONByteLength h + featureTableBinaryByteLength h"

definition batchTableLength :: "b3dmHeader \<Rightarrow> int" where
  "batchTableLength h = batchTableJSONByteLength h + batchTableBinaryByteLength h"

definition glbStart :: "b3dmHeader \<Rightarrow> int" where
  "glbStart h = batchTableStart h + batchTableLength h"

record b3dm =
  header :: b3dmHeader
  featureTable :: "byte list"
  batchTable :: "byte list"
  glbBytes :: "byte list"

text \<open>Decoding: the header reads and the three slices (lines 62 to 80 of \<^verbatim>\<open>compress.js\<close>).\<close>

definition decode :: "byte list \<Rightarrow> js_error + b3dm" where
  "decode arrayBuffer =
     thenE (readHeader arrayBuffer) (\<lambda>h.
       Inr \<lparr>header = h,
            featureTable =
              subarray arrayBuffer featureTableStart (featureTableStart + featureTableLength h),
            batchTable =
              subarray arrayBuffer (batchTableStart h) (batchTableStart h + batchTableLength h),
            glbBytes = subarray arrayBuffer (glbStart h) (byteLength h)\<rparr>)"

text \<open>
  Encoding (lines 86 to 97): the total length, the fresh 28-byte header with its seven
  writes, and \<^verbatim>\<open>Buffer.concat(list, totalLength)\<close>, which rejects a negative length, cuts
  the concatenation at \<open>totalLength\<close> bytes and fills with zero bytes what the list does not
  cover.
\<close>

definition totalLength :: "b3dmHeader \<Rightarrow> byte list \<Rightarrow> int" where
  "totalLength h glb = 28 + featureTableLength h + batchTableLength h + int (length glb)"

text \<open>A header all of whose copied fields are 32-bit values, and the 28 bytes written for it.\<close>

definition headerInRange :: "b3dmHeader \<Rightarrow> bool" where
  "headerInRange h =
     (isInt32 (magic h) \<and> isInt32 (version h) \<and>
      isInt32 (featureTableJSONByteLength h) \<and> isInt32 (featureTableBinaryByteLength h) \<and>
      isInt32 (batchTableJSONByteLength h) \<and> isInt32 (batchTableBinaryByteLength h))"

definition headerBytes :: "b3dmHeader \<Rightarrow> int \<Rightarrow> byte list" where
  "headerBytes h totalLen =
     int32Bytes (magic h) @ int32Bytes (version h) @ int32Bytes totalLen @
     int32Bytes (featureTableJSONByteLength h) @ int32Bytes (featureTableBinaryByteLength h) @
     int32Bytes (batchTableJSONByteLength h) @ int32Bytes (batchTableBinaryByteLength h)"

definition writeHeader :: "b3dmHeader \<Rightarrow> int \<Rightarrow> js_error + byte list" where
  "writeHeader h totalLen =
     thenE (writeInt32LE (replicate 28 0) (magic h) 0) (\<lambda>b0.
     thenE (writeInt32LE b0 (version h) 4) (\<lambda>b1.
     thenE (writeInt32LE b1 totalLen 8) (\<lambda>b2.
     thenE (writeInt32LE b2 (featureTableJSONByteLength h) 12) (\<lambda>b3.
     thenE (writeInt32LE b3 (featureTableBinaryByteLength h) 16) (\<lambda>b4.
     thenE (writeInt32LE b4 (batchTableJSONByteLength h) 20) (\<lambda>b5.
     writeInt32LE b5 (batchTableBinaryByteLength h) 24))))))"

definition fitTo :: "nat \<Rightarrow> byte list \<Rightarrow> byte list" where
  "fitTo n bytes = take n bytes @ replicate (n - length bytes) 0"

definition concatBuffers :: "byte list list \<Rightarrow> int \<Rightarrow> js_error + byte list" where
  "concatBuffers list totalLen =
     (if totalLen < 0 then Inl RangeError else Inr (fitTo (nat totalLen) (concat list)))"

definition encode :: "b3dmHeader \<Rightarrow> byte list \<Rightarrow> byte list \<Rightarrow> byte list \<Rightarrow> js_error + byte list" where
  "encode h ft bt glb =
     thenE (writeHeader h (totalLength h glb)) (\<lambda>hd.
       concatBuffers [hd, ft, bt, glb] (totalLength h glb))"

text \<open>
  The container branch of \<^verbatim>\<open>compress\<close> as a whole. \<open>rewriteGlb\<close> stands for the external
  read, transform and write of the payload; when it yields nothing the source goes on with
  \<^verbatim>\<open>undefined\<close> and the next property access throws a \<^verbatim>\<open>TypeError\<close>.
\<close>

definition compress_b3dm :: "(byte list \<Rightarrow> byte list option) \<Rightarrow> byte list \<Rightarrow> js_error + byte list" where
  "compress_b3dm rewriteGlb arrayBuffer =
     thenE (decode arrayBuffer) (\<lambda>c.
       case rewriteGlb (glbBytes c) of
         None \<Rightarrow> Inl TypeError
       | Some glb \<Rightarrow> encode (header c) (featureTable c) (batchTable c) glb)"

text \<open>
  The extraction script (\<^verbatim>\<open>app-02.js\<close>) derives the same offsets, without reading the
  magic, and keeps only the payload slice.
\<close>

definition extractGlb :: "byte list \<Rightarrow> js_error + byte list" where
  "extractGlb arrayBuffer =
     thenE (readInt32LE arrayBuffer 4) (\<lambda>version.
     thenE (readInt32LE arrayBuffer 8) (\<lambda>byteLength.
     thenE (readInt32LE arrayBuffer 12) (\<lambda>featureTableJSONByteLength.
     thenE (readInt32LE arrayBuffer 16) (\<lambda>featureTableBinaryByteLength.
     thenE (readInt32LE arrayBuffer 20) (\<lambda>batchTableJSONByteLength.
     thenE (readInt32LE arrayBuffer 24) (\<lambda>batchTableBinaryByteLength.
       (let batchTableStart' =
              featureTableStart + featureTableJSONByteLength + featureTableBinaryByteLength;
            batchTableLength' = batchTableJSONByteLength + batchTableBinaryByteLength;
            glbStart' = batchTableStart' + batchTableLength'
        in Inr (subarray arrayBuffer glbStart' byteLength))))))))"

text \<open>
  The worker script's container branch reads only the four table lengths and slices from
  the payload start to the end of the buffer.
\<close>

definition workerGlbBytes :: "byte list \<Rightarrow> js_error + byte list" where
  "workerGlbBytes arrayBuffer =
     thenE (readInt32LE arrayBuffer 12) (\<lambda>l12.
     thenE (readInt32LE arrayBuffer 16) (\<lambda>l16.
     thenE (readInt32LE arrayBuffer 20) (\<lambda>l20.
     thenE (readInt32LE arrayBuffer 24) (\<lambda>l24.
       Inr (subarrayFrom arrayBuffer (28 + l12 + l16 + l20 + l24))))))"

text \<open>
  The header invariant of a well-formed container: the table lengths are not negative, the
  tables end inside the declared total length, and the declared total length lies inside
  the buffer.
\<close>

definition validContainer :: "byte list \<Rightarrow> bool" where
  "validContainer buffer =
     (28 \<le> length buffer \<and>
      0 \<le> fieldAt buffer 12 \<and> 0 \<le> fieldAt buffer 16 \<and>
      0 \<le> fieldAt buffer 20 \<and> 0 \<le> fieldAt buffer 24 \<and>
      28 + fieldAt buffer 12 + fieldAt buffer 16 + fieldAt buffer 20 + fieldAt buffer 24
        \<le> fieldAt buffer 8 \<and>
      fieldAt buffer 8 \<le> int (length buffer))"

section \<open>The manifest rewriter (\<^verbatim>\<open>replaceB3dmWithGlb\<close>)\<close>

text \<open>
  A parsed manifest is a JSON value; an object is the list of its own properties in
  enumeration order. The type of numbers is left open.
\<close>

datatype 'n json =
    JNull
  | JBool bool
  | JNumber 'n
  | JString string
  | JArray "'n json list"
  | JObject "(string \<times> 'n json) list"

text \<open>
  \<^verbatim>\<open>s.replace(/\.b3dm/g, '.glb')\<close>: the string is scanned from the left; where the five
  characters \<^verbatim>\<open>.b3dm\<close> begin, \<^verbatim>\<open>.glb\<close> is emitted and the scan goes on behind them (the
  four characters after the dot are dropped from the rest); elsewhere the character is kept.
\<close>

fun replaceB3dm :: "string \<Rightarrow> string" where
  "replaceB3dm [] = []"
| "replaceB3dm (c # cs) =
     (if prefix ''.b3dm'' (c # cs) then ''.glb'' @ replaceB3dm (drop 4 cs)
      else c # replaceB3dm cs)"

text \<open>
  \<^verbatim>\<open>replaceB3dmWithGlb\<close>. A string is replaced, an array is mapped, an object has each own
  property reassigned in the \<^verbatim>\<open>for\<close>-\<^verbatim>\<open>in\<close> loop, anything else is returned as it is.
  The loop's guard is the call \<^verbatim>\<open>obj.hasOwnProperty(key)\<close>: when the object has an own
  property named \<^verbatim>\<open>hasOwnProperty\<close> (in parsed JSON never a function), the lookup finds it
  instead of the inherited method and the call throws a \<^verbatim>\<open>TypeError\<close> at the first key.
\<close>

fun replaceB3dmWithGlb :: "'n json \<Rightarrow> js_error + 'n json"
  and replaceItems :: "'n json list \<Rightarrow> js_error + 'n json list"
  and replaceProps :: "(string \<times> 'n json) list \<Rightarrow> js_error + (string \<times> 'n json) list"
where
  "replaceB3dmWithGlb (JString s) = Inr (JString (replaceB3dm s))"
| "replaceB3dmWithGlb (JArray items) =
     (case replaceItems items of Inl e \<Rightarrow> Inl e | Inr items' \<Rightarrow> Inr (JArray items'))"
| "replaceB3dmWithGlb (JObject props) =
     (if ''hasOwnProperty'' \<in> set (map fst props) then Inl TypeError
      else (case replaceProps props of Inl e \<Rightarrow> Inl e | Inr props' \<Rightarrow> Inr (JObject props')))"
| "replaceB3dmWithGlb JNull = Inr JNull"
| "replaceB3dmWithGlb (JBool b) = Inr (JBool b)"
| "replaceB3dmWithGlb (JNumber n) = Inr (JNumber n)"
| "replaceItems [] = Inr []"
| "replaceItems (item # items) =
     (case replaceB3dmWithGlb item of
        Inl e \<Rightarrow> Inl e
      | Inr item' \<Rightarrow>
          (case replaceItems items of Inl e \<Rightarrow> Inl e | Inr items' \<Rightarrow> Inr (item' # items')))"
| "replaceProps [] = Inr []"
| "replaceProps ((key, v) # props) =
     (case replaceB3dmWithGlb v of
        Inl e \<Rightarrow> Inl e
      | Inr v' \<Rightarrow>
          (case replaceProps props of Inl e \<Rightarrow> Inl e | Inr props' \<Rightarrow> Inr ((key, v') # props')))"


text \<open>
  The contract in the words of the specification, for comparison: a pure recursive transform
  that replaces in strings, maps lists element-wise, rewrites mappings value by value with
  the keys kept, and passes every other scalar through.
\<close>

fun spec_rewrite :: "'n json \<Rightarrow> 'n json"
  and spec_rewrite_list :: "'n json list \<Rightarrow> 'n json list"
  and spec_rewrite_mapping :: "(string \<times> 'n json) list \<Rightarrow> (string \<times> 'n json) list"
where
  "spec_rewrite (JString s) = JString (replaceB3dm s)"
| "spec_rewrite (JArray items) = JArray (spec_rewrite_list items)"
| "spec_rewrite (JObject props) = JObject (spec_rewrite_mapping props)"
| "spec_rewrite JNull = JNull"
| "spec_rewrite (JBool b) = JBool b"
| "spec_rewrite (JNumber n) = JNumber n"
| "spec_rewrite_list [] = []"
| "spec_rewrite_list (item # items) = spec_rewrite item # spec_rewrite_list items"
| "spec_rewrite_mapping [] = []"
| "spec_rewrite_mapping ((key, v) # props) = (key, spec_rewrite v) # spec_rewrite_mapping props"

text \<open>No object in the tree has an own property named \<^verbatim>\<open>hasOwnProperty\<close>.\<close>

fun shadowFree :: "'n json \<Rightarrow> bool"
  and shadowFree_list :: "'n json list \<Rightarrow> bool"
  and shadowFree_mapping :: "(string \<times> 'n json) list \<Rightarrow> bool"
where
  "shadowFree (JArray items) = shadowFree_list items"
| "shadowFree (JObject props) =
     (''hasOwnProperty'' \<notin> set (map fst props) \<and> shadowFree_mapping props)"
| "shadowFree (JString s) = True"
| "shadowFree JNull = True"
| "shadowFree (JBool b) = True"
| "shadowFree (JNumber n) = True"
| "shadowFree_list [] = True"
| "shadowFree_list (item # items) = (shadowFree item \<and> shadowFree_list items)"
| "shadowFree_mapping [] = True"
| "shadowFree_mapping ((key, v) # props) = (shadowFree v \<and> shadowFree_mapping props)"

section \<open>The batch scheduler (\<^verbatim>\<open>compress_with_stats-main.js\<close>, \<^verbatim>\<open>processFiles\<close>)\<close>

text \<open>
  The coordinator's state: \<^verbatim>\<open>completedTasks\<close> (the index of the next file to start),
  \<^verbatim>\<open>activeProcesses\<close>, and, for the record, the files handed to \<^verbatim>\<open>fork\<close> in order, the
  lines written by \<^verbatim>\<open>updateProgress\<close> (the processed count and the message) and the number
  of calls of \<^verbatim>\<open>finishProcessing\<close>. The coordinator reacts to three events of a child:
  a message, an error, and the exit, which it only logs.
\<close>

type_synonym path = string

record sched =
  completedTasks :: nat
  activeProcesses :: int
  forked :: "path list"
  progress :: "(int \<times> string) list"
  finished :: nat

datatype event = Message string | ChildError path string | Exit int

text \<open>\<^verbatim>\<open>Math.max(1, os.cpus().length - 1)\<close>.\<close>

definition numCPUs_of :: "nat \<Rightarrow> nat" where
  "numCPUs_of cpus = max 1 (cpus - 1)"

definition initialSched :: sched where
  "initialSched = \<lparr>completedTasks = 0, activeProcesses = 0, forked = [], progress = [], finished = 0\<rparr>"

definition runChildProcess :: "path \<Rightarrow> sched \<Rightarrow> sched" where
  "runChildProcess file s = s\<lparr>activeProcesses := activeProcesses s + 1, forked := forked s @ [file]\<rparr>"

text \<open>The \<^verbatim>\<open>while\<close> loop of \<^verbatim>\<open>runNextBatch\<close>; it ends because each round starts one more file.\<close>

function runNextBatch :: "path list \<Rightarrow> nat \<Rightarrow> sched \<Rightarrow> sched" where
  "runNextBatch files numCPUs s =
     (if activeProcesses s < int numCPUs \<and> completedTasks s < length files
      then runNextBatch files numCPUs
             (runChildProcess (files ! completedTasks s) (s\<lparr>completedTasks := completedTasks s + 1\<rparr>))
      else s)"
  by pat_completeness auto
termination
  by (relation "measure (\<lambda>(files, numCPUs, s). length files - completedTasks s)")
     (auto simp: runChildProcess_def)

definition updateProgress :: "string \<Rightarrow> sched \<Rightarrow> sched" where
  "updateProgress message s =
     s\<lparr>progress := progress s @ [(int (completedTasks s) - activeProcesses s, message)]\<rparr>"

definition finishProcessing :: "sched \<Rightarrow> sched" where
  "finishProcessing s = s\<lparr>finished := finished s + 1\<rparr>"

definition handleCompletion :: "path list \<Rightarrow> nat \<Rightarrow> string \<Rightarrow> sched \<Rightarrow> sched" where
  "handleCompletion files numCPUs message s =
     (let s1 = updateProgress message (s\<lparr>activeProcesses := activeProcesses s - 1\<rparr>)
      in if completedTasks s1 = length files \<and> activeProcesses s1 = 0 then finishProcessing s1
         else if activeProcesses s1 < int numCPUs then runNextBatch files numCPUs s1
         else s1)"

fun onEvent :: "path list \<Rightarrow> nat \<Rightarrow> event \<Rightarrow> sched \<Rightarrow> sched" where
  "onEvent files numCPUs (Message message) s = handleCompletion files numCPUs message s"
| "onEvent files numCPUs (ChildError file err) s =
     handleCompletion files numCPUs (''Error processing '' @ file @ '': '' @ err) s"
| "onEvent files numCPUs (Exit code) s = s"

text \<open>
  \<^verbatim>\<open>processFiles\<close>: the initial batch, then the events in the order in which the
  coordinator receives them.
\<close>

definition processFiles :: "path list \<Rightarrow> nat \<Rightarrow> event list \<Rightarrow> sched" where
  "processFiles files numCPUs events =
     fold (onEvent files numCPUs) events (runNextBatch files numCPUs initialSched)"

text \<open>The events that signal a completion, and their number in a trace.\<close>

fun isCompletion :: "event \<Rightarrow> bool" where
  "isCompletion (Exit code) = False"
| "isCompletion e = True"

definition completions :: "event list \<Rightarrow> nat" where
  "completions events = length (filter isCompletion events)"

text \<open>
  The text that an event hands to \<^verbatim>\<open>handleCompletion\<close>, and the texts of a trace in the
  order of arrival.
\<close>

fun signalMessage :: "event \<Rightarrow> string" where
  "signalMessage (Message message) = message"
| "signalMessage (ChildError file err) = ''Error processing '' @ file @ '': '' @ err"
| "signalMessage (Exit code) = []"

definition signalMessages :: "event list \<Rightarrow> string list" where
  "signalMessages events = map signalMessage (filter isCompletion events)"

text \<open>The events of a worker that runs to its end: its message, then its exit.\<close>

definition workerEvents ::
    "(byte list \<Rightarrow> (nat \<times> nat) option) \<Rightarrow> string \<Rightarrow> bool \<Rightarrow> bool \<Rightarrow> job \<Rightarrow> event list" where
  "workerEvents loadImage file dracoRequested ktx j =
     (let report = compress_worker loadImage file dracoRequested ktx j
      in [Message (fst report), Exit (snd report)])"

text \<open>The progress lines for a list of texts: numbered from 1 in the order of arrival.\<close>

definition numbered :: "string list \<Rightarrow> (int \<times> string) list" where
  "numbered messages = zip (map int [1 ..< Suc (length messages)]) messages"

declare runNextBatch.simps [simp del]

text \<open>
  The state after the completion signals with the texts \<open>messages\<close>, \<open>c\<close> of them: the
  progress lines are these texts, numbered; the first \<open>min K (numCPUs + c)\<close> files are
  started, all of them but \<open>c\<close> active; and the end is reported once exactly when the
  list is not empty and \<open>c\<close> has reached the number of files.
\<close>

definition schedInv :: "path list \<Rightarrow> nat \<Rightarrow> string list \<Rightarrow> sched \<Rightarrow> bool" where
  "schedInv files numCPUs messages s =
     (progress s = numbered messages \<and>
      completedTasks s = min (length files) (numCPUs + length messages) \<and>
      activeProcesses s = int (completedTasks s) - int (length messages) \<and>
      forked s = take (completedTasks s) files \<and>
      finished s = (if 0 < length files \<and> length messages = length files then 1 else 0))"

text \<open>The events of a batch whose workers run one after the other, each to its end.\<close>

definition jobEvents :: "(path \<times> job) list \<Rightarrow> event list" where
  "jobEvents jobs = concat (map (\<lambda>(file, j). workerEvents (\<lambda>_. None) file True True j) jobs)"

section \<open>Concrete inputs\<close>

text \<open>
  A version-2 texture container: the identifier, then 512 and 4660 at offsets 20 and 24,
  and 7 and 9 at offsets 36 and 40.
\<close>

definition ktx2_sample :: "byte list" where
  "ktx2_sample =
     KTX_IDENTIFIER_2 @ replicate 8 0 @ [0, 2, 0, 0] @ [0x34, 0x12, 0, 0] @ replicate 8 0 @
     [7, 0, 0, 0] @ [9, 0, 0, 0]"


definition pngScene :: document where
  "pngScene =
     \<lparr>listExtensionsUsed = [],
      listTextures = [\<lparr>getImage = None, getMimeType = ''image/png''\<rparr>]\<rparr>"

definition dracoScene :: document where
  "dracoScene = \<lparr>listExtensionsUsed = [''KHR_draco_mesh_compression''], listTextures = []\<rparr>"

text \<open>
  A 28-byte file: magic \<^verbatim>\<open>b3dm\<close>, version 1, a total length field of 1000 and a feature
  table JSON length of 50.
\<close>

definition inconsistentContainer :: "byte list" where
  "inconsistentContainer =
     [0x62, 0x33, 0x64, 0x6D,  1, 0, 0, 0,  0xE8, 0x03, 0, 0,  50, 0, 0, 0,
      0, 0, 0, 0,  0, 0, 0, 0,  0, 0, 0, 0]"

text \<open>
  Scenario A: a 138-byte container with a 10-byte feature table JSON, no other table and a
  100-byte payload; and the header that its first 28 bytes encode.
\<close>

definition scenarioA :: "byte list" where
  "scenarioA =
     [0x62, 0x33, 0x64, 0x6D,  1, 0, 0, 0,  138, 0, 0, 0,  10, 0, 0, 0,
      0, 0, 0, 0,  0, 0, 0, 0,  0, 0, 0, 0] @ replicate 10 0x20 @ replicate 100 0x67"

definition scenarioA_header :: b3dmHeader where
  "scenarioA_header =
     \<lparr>magic = 1835283298, version = 1, byteLength = 138,
      featureTableJSONByteLength = 10, featureTableBinaryByteLength = 0,
      batchTableJSONByteLength = 0, batchTableBinaryByteLength = 0\<rparr>"

text \<open>A 32-byte file whose total length field says 30.\<close>

definition shortTotal :: "byte list" where
  "shortTotal =
     [0x62, 0x33, 0x64, 0x6D,  1, 0, 0, 0,  30, 0, 0, 0,  0, 0, 0, 0,
      0, 0, 0, 0,  0, 0, 0, 0,  0, 0, 0, 0,  1, 2, 3, 4]"

text \<open>
  A smallest binary glTF payload of 48 bytes (the 12-byte header and one JSON chunk holding
  \<^verbatim>\<open>{"asset":{"version":"2.0"}}\<close> and a space), and two 76-byte containers around it: one
  whose four table lengths are 0, and one that differs from it only in the table length
  fields, which hold -4, 0, 4 and 0.
\<close>

definition minimalGlb :: "byte list" where
  "minimalGlb =
     [0x67, 0x6C, 0x54, 0x46,  2, 0, 0, 0,  48, 0, 0, 0,
      28, 0, 0, 0,  0x4A, 0x53, 0x4F, 0x4E,
      0x7B, 0x22, 0x61, 0x73, 0x73, 0x65, 0x74, 0x22, 0x3A, 0x7B,
      0x22, 0x76, 0x65, 0x72, 0x73, 0x69, 0x6F, 0x6E, 0x22, 0x3A,
      0x22, 0x32, 0x2E, 0x30, 0x22, 0x7D, 0x7D, 0x20]"

definition negativeLengthContainer :: "byte list" where
  "negativeLengthContainer =
     [0x62, 0x33, 0x64, 0x6D,  1, 0, 0, 0,  76, 0, 0, 0,  0xFC, 0xFF, 0xFF, 0xFF,
      0, 0, 0, 0,  4, 0, 0, 0,  0, 0, 0, 0] @ minimalGlb"

definition plainContainer :: "byte list" where
  "plainContainer =
     [0x62, 0x33, 0x64, 0x6D,  1, 0, 0, 0,  76, 0, 0, 0,  0, 0, 0, 0,
      0, 0, 0, 0,  0, 0, 0, 0,  0, 0, 0, 0] @ minimalGlb"


text \<open>
  Two manifests: one whose \<^verbatim>\<open>extras\<close> object has a key named \<^verbatim>\<open>hasOwnProperty\<close>, and
  Scenario E, a tree of nested lists and mappings with three strings that end in the stale
  extension.
\<close>

definition shadowedManifest :: "int json" where
  "shadowedManifest =
     JObject
      [(''asset'', JObject [(''version'', JString ''1.0'')]),
       (''extras'', JObject [(''hasOwnProperty'', JBool True)]),
       (''root'', JObject [(''content'', JObject [(''uri'', JString ''0.b3dm'')])])]"

definition scenarioE :: "int json" where
  "scenarioE =
     JObject
      [(''asset'', JObject [(''version'', JString ''1.0'')]),
       (''geometricError'', JNumber 500),
       (''root'',
        JObject
         [(''content'', JObject [(''uri'', JString ''tiles/0.b3dm'')]),
          (''refine'', JString ''ADD''),
          (''children'',
           JArray
            [JObject [(''content'', JObject [(''uri'', JString ''tiles/1.b3dm'')]),
                      (''visible'', JBool True)],
             JObject [(''content'', JObject [(''uri'', JString ''tiles/2.b3dm'')]),
                      (''extras'', JNull)]])])]"

text \<open>
  Two batches: two files, for a run in which the first worker exits without a message; and
  Scenario D, five files with texture and mesh compression requested. A job that meets no
  obstacle reads the scene with the PNG texture, has its transforms applied and its
  document written; in one variant of the scenario the third file cannot be read, in the
  other the transforms of the third job are rejected.
\<close>

definition crashFiles :: "path list" where
  "crashFiles = [''a.b3dm'', ''b.b3dm'']"

definition scenarioD_files :: "path list" where
  "scenarioD_files = [''1.b3dm'', ''2.b3dm'', ''3.b3dm'', ''4.b3dm'', ''5.b3dm'']"

definition okJob :: job where
  "okJob =
     \<lparr>existsSync = True, readThrows = None, readDocument = Some pngScene,
      documentTransform = (\<lambda>transforms doc. (False, transformDocument toktx_model draco_model transforms doc)),
      writeBinary = (\<lambda>doc. Some [0x67, 0x6C, 0x54, 0x46]), writeThrows = None,
      executionTime = ''1.00''\<rparr>"

definition transformErrorJob :: job where
  "transformErrorJob = okJob\<lparr>documentTransform := (\<lambda>transforms doc. (True, doc))\<rparr>"

definition unreadableJob :: job where
  "unreadableJob = okJob\<lparr>readDocument := None\<rparr>"

definition scenarioD_jobs :: "(path \<times> job) list" where
  "scenarioD_jobs = zip scenarioD_files [okJob, okJob, unreadableJob, okJob, okJob]"

definition scenarioD_transformError_jobs :: "(path \<times> job) list" where
  "scenarioD_transformError_jobs = zip scenarioD_files [okJob, okJob, transformErrorJob, okJob, okJob]"

section \<open>Basic facts\<close>

lemma thenE_Inr [simp]: "thenE (Inr x) f = f x"
  by (simp add: thenE_def)

lemma thenE_Inl [simp]: "thenE (Inl e) f = Inl e"
  by (simp add: thenE_def)

lemma take4_drop:
  assumes "off + 4 \<le> length (buf :: 'a list)"
  shows "take 4 (drop off buf) = [buf ! off, buf ! (off + 1), buf ! (off + 2), buf ! (off + 3)]"
proof (rule nth_equalityI)
  show "length (take 4 (drop off buf)) =
      length [buf ! off, buf ! (off + 1), buf ! (off + 2), buf ! (off + 3)]"
    using assms by simp
next
  fix i assume "i < length (take 4 (drop off buf))"
  then have "i < 4" by simp
  then consider "i = 0" | "i = 1" | "i = 2" | "i = 3" by linarith
  then show "take 4 (drop off buf) ! i =
      [buf ! off, buf ! (off + 1), buf ! (off + 2), buf ! (off + 3)] ! i"
    using assms by cases simp_all
qed

section \<open>The texture-container header\<close>

lemma getUint32_le32:
  "getUint32 buffer off =
     (if off + 4 \<le> length buffer then Inr (le32 buffer off) else Inl RangeError)"
  by (simp add: getUint32_def leValue_def le32_def take4_drop)

lemma fold_ktxFlagStep:
  "fold (ktxFlagStep buffer) [0 ..< n] (True, True) =
     ((\<forall>i<n. byteAt buffer i = Some (KTX_IDENTIFIER_1 ! i)),
      (\<forall>i<n. byteAt buffer i = Some (KTX_IDENTIFIER_2 ! i)))"
  by (induction n) (auto simp: ktxFlagStep_def less_Suc_eq)

lemma take_eq_iff_byteAt:
  "(take (length ident) buffer = ident) =
     (\<forall>i<length ident. byteAt buffer i = Some (ident ! i))"
proof
  assume eq: "take (length ident) buffer = ident"
  then have "length (take (length ident) buffer) = length ident" by simp
  then have le: "length ident \<le> length buffer" by simp
  show "\<forall>i<length ident. byteAt buffer i = Some (ident ! i)"
  proof (intro allI impI)
    fix i assume i: "i < length ident"
    have "take (length ident) buffer ! i = buffer ! i" using i by simp
    with eq i le show "byteAt buffer i = Some (ident ! i)" by (simp add: byteAt_def)
  qed
next
  assume all: "\<forall>i<length ident. byteAt buffer i = Some (ident ! i)"
  have inb: "i < length buffer \<and> buffer ! i = ident ! i" if "i < length ident" for i
    using all that by (auto simp: byteAt_def split: if_splits)
  have le: "length ident \<le> length buffer"
  proof (cases "length ident")
    case 0
    then show ?thesis by simp
  next
    case (Suc k)
    then have "k < length buffer" using inb [of k] by simp
    with Suc show ?thesis by simp
  qed
  show "take (length ident) buffer = ident"
  proof (rule nth_equalityI)
    show "length (take (length ident) buffer) = length ident" using le by simp
  next
    fix i assume "i < length (take (length ident) buffer)"
    then have "i < length ident" by simp
    then show "take (length ident) buffer ! i = ident ! i" using inb [of i] by simp
  qed
qed

lemma isKTX1_iff: "isKTX1 buffer = (take 12 buffer = KTX_IDENTIFIER_1)"
proof -
  have len: "length KTX_IDENTIFIER_1 = 12" by (simp add: KTX_IDENTIFIER_1_def)
  show ?thesis
    using take_eq_iff_byteAt [of KTX_IDENTIFIER_1 buffer]
    by (simp add: isKTX1_def ktxFlags_def fold_ktxFlagStep len)
qed

lemma isKTX2_iff: "isKTX2 buffer = (take 12 buffer = KTX_IDENTIFIER_2)"
proof -
  have len: "length KTX_IDENTIFIER_1 = 12" "length KTX_IDENTIFIER_2 = 12"
    by (simp_all add: KTX_IDENTIFIER_1_def KTX_IDENTIFIER_2_def)
  show ?thesis
    using take_eq_iff_byteAt [of KTX_IDENTIFIER_2 buffer]
    by (simp add: isKTX2_def ktxFlags_def fold_ktxFlagStep len)
qed

text \<open>
  C7. For every byte buffer, the version-1 flag of \<^verbatim>\<open>parseKTXHeader\<close> holds exactly when
  the first 12 bytes are the version-1 identifier, and the version-2 flag exactly when they
  are the version-2 identifier. With the version-1 identifier the width and height are the
  little-endian 32-bit values at offsets 36 and 40; with the version-2 identifier they are
  those at offsets 20 and 24. A read that does not fit into the buffer (fewer than 44,
  respectively 28, bytes) throws; a buffer with neither identifier gives \<^verbatim>\<open>null\<close>.
\<close>

theorem parseKTXHeader_versions:
  "(isKTX1 buffer \<longleftrightarrow> take 12 buffer = KTX_IDENTIFIER_1) \<and>
   (isKTX2 buffer \<longleftrightarrow> take 12 buffer = KTX_IDENTIFIER_2) \<and>
   parseKTXHeader buffer =
     (if take 12 buffer = KTX_IDENTIFIER_1 then
        (if 44 \<le> length buffer
         then Inr (Some \<lparr>pixelWidth = le32 buffer 36, pixelHeight = le32 buffer 40\<rparr>)
         else Inl RangeError)
      else if take 12 buffer = KTX_IDENTIFIER_2 then
        (if 28 \<le> length buffer
         then Inr (Some \<lparr>pixelWidth = le32 buffer 20, pixelHeight = le32 buffer 24\<rparr>)
         else Inl RangeError)
      else Inr None)"
  by (simp add: isKTX1_iff isKTX2_iff parseKTXHeader_def getUint32_le32)

theorem parseKTXHeader_versions_witness:
  "take 12 ktx2_sample = KTX_IDENTIFIER_2 \<and>
   parseKTXHeader ktx2_sample = Inr (Some \<lparr>pixelWidth = 512, pixelHeight = 4660\<rparr>)"
  by (simp add: parseKTXHeader_versions ktx2_sample_def KTX_IDENTIFIER_1_def
      KTX_IDENTIFIER_2_def le32_def nth_append)

section \<open>The inspector and the planner\<close>

lemma fold_flag: "fold (\<lambda>ext flag. if ext = k then True else flag) xs b = (b \<or> k \<in> set xs)"
  by (induction xs arbitrary: b) auto

lemma dracoCompression_stats:
  "dracoCompression (getModelStatistics loadImage doc) =
     (''KHR_draco_mesh_compression'' \<in> set (listExtensionsUsed doc))"
  by (simp add: getModelStatistics_def fold_flag)




text \<open>
  C8. For every statistics record and every pair of requested options, the list of
  transforms holds the mesh-compression step exactly when mesh compression is requested and
  the statistics do not report it, and holds the texture-compression step exactly when
  texture compression is requested and no texture has the format \<^verbatim>\<open>KTX\<close>. A scene that
  declares the mesh-compression extension gets no mesh-compression step when mesh
  compression is requested again.
\<close>

theorem planner_step_conditions:
  "(Draco \<in> set (planTransforms st d k) \<longleftrightarrow> (d \<and> \<not> dracoCompression st)) \<and>
   (Toktx \<in> set (planTransforms st d k) \<longleftrightarrow> (k \<and> ''KTX'' \<notin> set (map format (textures st)))) \<and>
   (''KHR_draco_mesh_compression'' \<in> set (listExtensionsUsed doc) \<longrightarrow>
      Draco \<notin> set (planTransforms (getModelStatistics loadImage doc) True k))"
proof -
  have "list_ex (\<lambda>texture. format texture = ''KTX'') ts = (''KTX'' \<in> set (map format ts))"
    for ts :: "textureStat list"
    by (induction ts) auto
  then show ?thesis
    by (simp add: planTransforms_def hasKTXTexture_def dracoCompression_stats)
qed

theorem planner_step_conditions_witness:
  "''KHR_draco_mesh_compression'' \<in> set (listExtensionsUsed dracoScene) \<and>
   Draco \<notin> set (planTransforms (getModelStatistics (\<lambda>_. None) dracoScene) True True)"
proof -
  have m: "''KHR_draco_mesh_compression'' \<in> set (listExtensionsUsed dracoScene)"
    by (simp add: dracoScene_def)
  with planner_step_conditions
    [of "getModelStatistics (\<lambda>_. None) dracoScene" True True dracoScene "\<lambda>_. None"]
  show ?thesis by blast
qed






section \<open>Decoding a container\<close>

lemma readInt32LE_if:
  "readInt32LE buffer off =
     (if off + 4 \<le> length buffer then Inr (fieldAt buffer off) else Inl RangeError)"
  by (simp add: readInt32LE_def fieldAt_def Let_def)

lemma readHeader_short: "length buffer < 28 \<Longrightarrow> readHeader buffer = Inl RangeError"
  by (simp add: readHeader_def readInt32LE_if)

lemma readHeader_long:
  "28 \<le> length buffer \<Longrightarrow> readHeader buffer =
     Inr \<lparr>magic = fieldAt buffer 0, version = fieldAt buffer 4, byteLength = fieldAt buffer 8,
          featureTableJSONByteLength = fieldAt buffer 12,
          featureTableBinaryByteLength = fieldAt buffer 16,
          batchTableJSONByteLength = fieldAt buffer 20,
          batchTableBinaryByteLength = fieldAt buffer 24\<rparr>"
  by (simp add: readHeader_def readInt32LE_if)

text \<open>
  C5, as stated, fails: the 28-byte file whose total length field says 1000 and whose
  feature table would end at byte 78 is decoded without any error; its three slices are
  empty.
\<close>

theorem decode_malformed_counterexample:
  "length inconsistentContainer = 28 \<and>
   readInt32LE inconsistentContainer 8 = Inr 1000 \<and>
   readInt32LE inconsistentContainer 12 = Inr 50 \<and>
   decode inconsistentContainer =
     Inr \<lparr>header = \<lparr>magic = 1835283298, version = 1, byteLength = 1000,
                      featureTableJSONByteLength = 50, featureTableBinaryByteLength = 0,
                      batchTableJSONByteLength = 0, batchTableBinaryByteLength = 0\<rparr>,
          featureTable = [], batchTable = [], glbBytes = []\<rparr>"
  by (simp add: inconsistentContainer_def decode_def readHeader_def readInt32LE_def
      leValue_def thenE_def subarray_def clampIndex_def featureTableStart_def
      featureTableLength_def batchTableStart_def batchTableLength_def glbStart_def Let_def)

lemma extractGlb_short: "length buffer < 28 \<Longrightarrow> extractGlb buffer = Inl RangeError"
  by (simp add: extractGlb_def readInt32LE_if)

lemma extractGlb_long:
  "28 \<le> length buffer \<Longrightarrow> extractGlb buffer =
     Inr (subarray buffer
            (featureTableStart + fieldAt buffer 12 + fieldAt buffer 16 +
               (fieldAt buffer 20 + fieldAt buffer 24))
            (fieldAt buffer 8))"
  by (simp add: extractGlb_def readInt32LE_if Let_def)

text \<open>
  C5, amended. Decoding fails exactly when the buffer holds fewer than 28 bytes, and the
  failure is the \<^verbatim>\<open>RangeError\<close> of a header read; on every other buffer it succeeds. The
  same holds for the extraction script.
\<close>

theorem decode_fails_iff:
  "(decode buffer = Inl RangeError) = (length buffer < 28) \<and>
   isl (decode buffer) = (length buffer < 28) \<and>
   (extractGlb buffer = Inl RangeError) = (length buffer < 28) \<and>
   isl (extractGlb buffer) = (length buffer < 28)"
proof (cases "length buffer < 28")
  case True
  then show ?thesis by (simp add: decode_def readHeader_short extractGlb_short)
next
  case False
  then have "28 \<le> length buffer" by simp
  then show ?thesis using False by (simp add: decode_def readHeader_long extractGlb_long)
qed

section \<open>The 32-bit fields\<close>

lemma leValue4: "leValue [b0, b1, b2, b3] = unat b0 + 256 * (unat b1 + 256 * (unat b2 + 256 * unat b3))"
  by (simp add: leValue_def)

lemma leValue4_bound: "leValue [b0, b1, b2, b3] < 2 ^ 32"
proof -
  have "unat b0 < 256" "unat b1 < 256" "unat b2 < 256" "unat b3 < 256"
    using unsigned_less [of b0, where ?'a = nat] unsigned_less [of b1, where ?'a = nat]
      unsigned_less [of b2, where ?'a = nat] unsigned_less [of b3, where ?'a = nat] by simp_all
  then show ?thesis unfolding leValue4 by simp
qed

lemma fieldAt_isInt32: "off + 4 \<le> length buffer \<Longrightarrow> isInt32 (fieldAt buffer off)"
  using leValue4_bound [of "buffer ! off" "buffer ! (off + 1)" "buffer ! (off + 2)" "buffer ! (off + 3)"]
  by (simp add: fieldAt_def take4_drop isInt32_def Let_def)

lemma unat_byte_of_int: "unat (word_of_int x :: byte) = nat (x mod 256)"
  by (simp add: unat_eq_nat_uint uint_word_of_int)

lemma int_mod_split:
  "(v::int) mod 4294967296 =
     v mod 256 + 256 * ((v div 256) mod 256 + 256 * ((v div 65536) mod 256 + 256 * ((v div 16777216) mod 256)))"
proof -
  have d1: "v div 256 div 256 = v div 65536" using zdiv_zmult2_eq [of 256 v 256] by simp
  have d2: "v div 65536 div 256 = v div 16777216" using zdiv_zmult2_eq [of 256 v 65536] by simp
  have a: "v mod 4294967296 = 256 * (v div 256 mod 16777216) + v mod 256"
    using zmod_zmult2_eq [of 16777216 v 256] by simp
  have b: "(v div 256) mod 16777216 = 256 * (v div 65536 mod 65536) + (v div 256) mod 256"
    using zmod_zmult2_eq [of 65536 "v div 256" 256] by (simp add: d1)
  have c: "(v div 65536) mod 65536 = 256 * (v div 16777216 mod 256) + (v div 65536) mod 256"
    using zmod_zmult2_eq [of 256 "v div 65536" 256] by (simp add: d2)
  show ?thesis unfolding a b c by (simp only: distrib_left mult.assoc [symmetric] add_ac)
qed

lemma leValue_int32Bytes: "int (leValue (int32Bytes v)) = v mod 2 ^ 32"
proof -
  have e: "int (nat (x mod 256)) = x mod 256" for x :: int by simp
  have "int (leValue (int32Bytes v)) =
      v mod 256 + 256 * ((v div 256) mod 256 + 256 * ((v div 65536) mod 256 + 256 * ((v div 16777216) mod 256)))"
    unfolding int32Bytes_def leValue4 unat_byte_of_int of_nat_add of_nat_mult e by simp
  also have "\<dots> = v mod 4294967296" by (rule int_mod_split [symmetric])
  finally show ?thesis by simp
qed

lemma length_int32Bytes [simp]: "length (int32Bytes v) = 4"
  by (simp add: int32Bytes_def)

lemma fieldAt_int32Bytes:
  assumes "isInt32 v"
  shows "fieldAt (pre @ int32Bytes v @ post) (length pre) = v"
proof -
  have t: "take 4 (drop (length pre) (pre @ int32Bytes v @ post)) = int32Bytes v"
    by simp
  have m: "int (leValue (int32Bytes v)) = v mod 2 ^ 32" by (rule leValue_int32Bytes)
  have f: "fieldAt (pre @ int32Bytes v @ post) (length pre) =
      (if int (leValue (int32Bytes v)) < 2 ^ 31 then int (leValue (int32Bytes v))
       else int (leValue (int32Bytes v)) - 2 ^ 32)"
    unfolding fieldAt_def t by (simp add: Let_def)
  show ?thesis
  proof (cases "0 \<le> v")
    case True
    with assms have "v mod 2 ^ 32 = v" by (simp add: isInt32_def)
    with True assms show ?thesis unfolding f m by (simp add: isInt32_def)
  next
    case False
    from False assms have "(v + 4294967296) mod 4294967296 = v + 4294967296"
      by (intro mod_pos_pos_trivial) (simp_all add: isInt32_def)
    then have "v mod 2 ^ 32 = v + 2 ^ 32" by simp
    with False assms show ?thesis unfolding f m by (simp add: isInt32_def)
  qed
qed

text \<open>Writing the value read from four bytes gives these bytes back.\<close>

lemma byte_of_sum: "(word_of_int (uint (b :: byte) + 256 * x) :: byte) = b"
proof -
  have "(word_of_int (uint b + 256 * x) :: byte) = word_of_int (uint b) + word_of_int 256 * word_of_int x"
    by (simp only: of_int_add of_int_mult)
  also have "\<dots> = b"
  proof -
    have z: "(word_of_int 256 :: byte) = 0" by simp
    show ?thesis unfolding z by simp
  qed
  finally show ?thesis .
qed

lemma div_of_sum: "(uint (b :: byte) + 256 * x) div 256 = x"
proof -
  have "0 \<le> uint b" "uint b < 256" using uint_lt2p [of b] by simp_all
  then show ?thesis by simp
qed

lemma int32Bytes_sum:
  "int32Bytes (uint (b0::byte) + 256 * (uint (b1::byte) + 256 * (uint (b2::byte) + 256 * (uint (b3::byte) + 256 * s))))
     = [b0, b1, b2, b3]"
proof -
  let ?v3 = "uint b3 + 256 * s"
  let ?v2 = "uint b2 + 256 * ?v3"
  let ?v1 = "uint b1 + 256 * ?v2"
  let ?v0 = "uint b0 + 256 * ?v1"
  have d1: "?v0 div 2 ^ 8 = ?v1" using div_of_sum [of b0 ?v1] by simp
  have d2: "?v0 div 2 ^ 16 = ?v2"
  proof -
    have "?v0 div 2 ^ 16 = ?v0 div 256 div 256" using zdiv_zmult2_eq [of 256 ?v0 256] by simp
    also have "\<dots> = ?v2" by (simp only: div_of_sum)
    finally show ?thesis .
  qed
  have d3: "?v0 div 2 ^ 24 = ?v3"
  proof -
    have "?v0 div 2 ^ 24 = ?v0 div 256 div 65536" using zdiv_zmult2_eq [of 65536 ?v0 256] by simp
    also have "\<dots> = ?v1 div 65536" by (simp only: div_of_sum)
    also have "\<dots> = ?v1 div 256 div 256" using zdiv_zmult2_eq [of 256 ?v1 256] by simp
    also have "\<dots> = ?v3" by (simp only: div_of_sum)
    finally show ?thesis .
  qed
  show ?thesis unfolding int32Bytes_def d1 d2 d3 by (simp only: byte_of_sum)
qed

lemma int32Bytes_fieldAt:
  assumes "off + 4 \<le> length buffer"
  shows "int32Bytes (fieldAt buffer off) = take 4 (drop off buffer)"
proof -
  let ?b0 = "buffer ! off" and ?b1 = "buffer ! (off + 1)" and ?b2 = "buffer ! (off + 2)" and ?b3 = "buffer ! (off + 3)"
  have t: "take 4 (drop off buffer) = [?b0, ?b1, ?b2, ?b3]" using assms by (rule take4_drop)
  have u: "int (leValue [?b0, ?b1, ?b2, ?b3]) = uint ?b0 + 256 * (uint ?b1 + 256 * (uint ?b2 + 256 * uint ?b3))"
    unfolding leValue4 uint_nat by simp
  have "\<exists>s. fieldAt buffer off = uint ?b0 + 256 * (uint ?b1 + 256 * (uint ?b2 + 256 * (uint ?b3 + 256 * s)))"
  proof (cases "leValue [?b0, ?b1, ?b2, ?b3] < 2 ^ 31")
    case True
    then have "fieldAt buffer off = uint ?b0 + 256 * (uint ?b1 + 256 * (uint ?b2 + 256 * (uint ?b3 + 256 * 0)))"
      unfolding fieldAt_def t Let_def using u by simp
    then show ?thesis by (rule exI)
  next
    case False
    then have "fieldAt buffer off = uint ?b0 + 256 * (uint ?b1 + 256 * (uint ?b2 + 256 * (uint ?b3 + 256 * (- 1))))"
      unfolding fieldAt_def t Let_def using u by simp
    then show ?thesis by (rule exI)
  qed
  then obtain s where "fieldAt buffer off = uint ?b0 + 256 * (uint ?b1 + 256 * (uint ?b2 + 256 * (uint ?b3 + 256 * s)))" ..
  then show ?thesis unfolding t by (simp only: int32Bytes_sum)
qed

section \<open>Encoding a container\<close>

lemma length_fitTo [simp]: "length (fitTo n xs) = n"
  by (simp add: fitTo_def)

lemma fitTo_append: "length pre \<le> n \<Longrightarrow> fitTo n (pre @ rest) = pre @ fitTo (n - length pre) rest"
  by (simp add: fitTo_def)

lemma fitTo_exact: "fitTo (length xs) xs = xs"
  by (simp add: fitTo_def)

lemma length_headerBytes [simp]: "length (headerBytes h t) = 28"
  by (simp add: headerBytes_def)

lemma writeInt32LE_ok:
  "isInt32 v \<Longrightarrow> off + 4 \<le> length buffer \<Longrightarrow>
     writeInt32LE buffer v off = Inr (take off buffer @ int32Bytes v @ drop (off + 4) buffer)"
  by (simp add: writeInt32LE_def isInt32_def)

lemma writeHeader_ok:
  assumes "headerInRange h" and "isInt32 t"
  shows "writeHeader h t = Inr (headerBytes h t)"
  using assms
  by (simp add: writeHeader_def headerInRange_def writeInt32LE_ok headerBytes_def)

lemma writeHeader_range:
  assumes "headerInRange h" and "\<not> isInt32 t"
  shows "writeHeader h t = Inl RangeError"
proof -
  have w: "writeInt32LE b t 8 = Inl RangeError" for b
    using assms(2) by (auto simp: writeInt32LE_def isInt32_def)
  show ?thesis using assms(1)
    by (simp add: writeHeader_def headerInRange_def writeInt32LE_ok w)
qed

lemma fieldAt_headerBytes:
  assumes "headerInRange h" and "isInt32 t"
  shows "fieldAt (headerBytes h t @ rest) 0 = magic h"
    and "fieldAt (headerBytes h t @ rest) 4 = version h"
    and "fieldAt (headerBytes h t @ rest) 8 = t"
    and "fieldAt (headerBytes h t @ rest) 12 = featureTableJSONByteLength h"
    and "fieldAt (headerBytes h t @ rest) 16 = featureTableBinaryByteLength h"
    and "fieldAt (headerBytes h t @ rest) 20 = batchTableJSONByteLength h"
    and "fieldAt (headerBytes h t @ rest) 24 = batchTableBinaryByteLength h"
proof -
  let ?m = "int32Bytes (magic h)" and ?v = "int32Bytes (version h)" and ?t = "int32Bytes t"
  let ?a = "int32Bytes (featureTableJSONByteLength h)" and ?b = "int32Bytes (featureTableBinaryByteLength h)"
  let ?c = "int32Bytes (batchTableJSONByteLength h)" and ?d = "int32Bytes (batchTableBinaryByteLength h)"
  have r: "isInt32 (magic h)" "isInt32 (version h)" "isInt32 (featureTableJSONByteLength h)"
    "isInt32 (featureTableBinaryByteLength h)" "isInt32 (batchTableJSONByteLength h)"
    "isInt32 (batchTableBinaryByteLength h)"
    using assms(1) by (simp_all add: headerInRange_def)
  show "fieldAt (headerBytes h t @ rest) 0 = magic h"
    using fieldAt_int32Bytes [OF r(1), of "[]" "?v @ ?t @ ?a @ ?b @ ?c @ ?d @ rest"]
    by (simp add: headerBytes_def)
  show "fieldAt (headerBytes h t @ rest) 4 = version h"
    using fieldAt_int32Bytes [OF r(2), of "?m" "?t @ ?a @ ?b @ ?c @ ?d @ rest"]
    by (simp add: headerBytes_def)
  show "fieldAt (headerBytes h t @ rest) 8 = t"
    using fieldAt_int32Bytes [OF assms(2), of "?m @ ?v" "?a @ ?b @ ?c @ ?d @ rest"]
    by (simp add: headerBytes_def)
  show "fieldAt (headerBytes h t @ rest) 12 = featureTableJSONByteLength h"
    using fieldAt_int32Bytes [OF r(3), of "?m @ ?v @ ?t" "?b @ ?c @ ?d @ rest"]
    by (simp add: headerBytes_def)
  show "fieldAt (headerBytes h t @ rest) 16 = featureTableBinaryByteLength h"
    using fieldAt_int32Bytes [OF r(4), of "?m @ ?v @ ?t @ ?a" "?c @ ?d @ rest"]
    by (simp add: headerBytes_def)
  show "fieldAt (headerBytes h t @ rest) 20 = batchTableJSONByteLength h"
    using fieldAt_int32Bytes [OF r(5), of "?m @ ?v @ ?t @ ?a @ ?b" "?d @ rest"]
    by (simp add: headerBytes_def)
  show "fieldAt (headerBytes h t @ rest) 24 = batchTableBinaryByteLength h"
    using fieldAt_int32Bytes [OF r(6), of "?m @ ?v @ ?t @ ?a @ ?b @ ?c" "rest"]
    by (simp add: headerBytes_def)
qed

lemma encode_ok:
  assumes "headerInRange h" and "0 \<le> totalLength h glb" and "totalLength h glb < 2 ^ 31"
  shows "encode h ft bt glb =
     Inr (fitTo (nat (totalLength h glb)) (headerBytes h (totalLength h glb) @ ft @ bt @ glb))"
proof -
  have "isInt32 (totalLength h glb)" using assms(2,3) by (simp add: isInt32_def)
  then show ?thesis using assms(1,2)
    by (simp add: encode_def writeHeader_ok concatBuffers_def)
qed

lemma encode_range:
  assumes "headerInRange h" and "totalLength h glb < 0 \<or> 2 ^ 31 \<le> totalLength h glb"
  shows "encode h ft bt glb = Inl RangeError"
proof (cases "isInt32 (totalLength h glb)")
  case True
  with assms(2) have "totalLength h glb < 0" by (simp add: isInt32_def)
  with True assms(1) show ?thesis by (simp add: encode_def writeHeader_ok concatBuffers_def)
next
  case False
  with assms(1) show ?thesis by (simp add: encode_def writeHeader_range)
qed

lemma encode_fields:
  assumes "headerInRange h" and "28 \<le> totalLength h glb" and "totalLength h glb < 2 ^ 31"
  shows "totalLength h glb =
           28 + (featureTableJSONByteLength h + featureTableBinaryByteLength h)
              + (batchTableJSONByteLength h + batchTableBinaryByteLength h) + int (length glb) \<and>
         (\<exists>out. encode h ft bt glb = Inr out \<and>
            int (length out) = totalLength h glb \<and>
            readInt32LE out 8 = Inr (totalLength h glb) \<and>
            readInt32LE out 12 = Inr (featureTableJSONByteLength h) \<and>
            readInt32LE out 16 = Inr (featureTableBinaryByteLength h) \<and>
            readInt32LE out 20 = Inr (batchTableJSONByteLength h) \<and>
            readInt32LE out 24 = Inr (batchTableBinaryByteLength h)) \<and>
         encode (h\<lparr>byteLength := b\<rparr>) ft bt glb = encode h ft bt glb"
proof -
  let ?T = "totalLength h glb"
  let ?out = "fitTo (nat ?T) (headerBytes h ?T @ ft @ bt @ glb)"
  have T: "isInt32 ?T" using assms(2,3) by (simp add: isInt32_def)
  have enc: "encode h ft bt glb = Inr ?out"
    using assms by (intro encode_ok) simp_all
  have len: "int (length ?out) = ?T" using assms(2) by simp
  have split: "?out = headerBytes h ?T @ fitTo (nat ?T - 28) (ft @ bt @ glb)"
    using assms(2) fitTo_append [of "headerBytes h ?T" "nat ?T" "ft @ bt @ glb"] by simp
  have l28: "28 \<le> length ?out" using assms(2) by simp
  have rd: "readInt32LE ?out off = Inr (fieldAt ?out off)" if "off + 4 \<le> 28" for off
    using that l28 by (simp only: readInt32LE_if) simp
  have same: "encode (h\<lparr>byteLength := b\<rparr>) ft bt glb = encode h ft bt glb"
    by (simp add: encode_def totalLength_def writeHeader_def featureTableLength_def batchTableLength_def)
  have tot: "?T = 28 + (featureTableJSONByteLength h + featureTableBinaryByteLength h)
              + (batchTableJSONByteLength h + batchTableBinaryByteLength h) + int (length glb)"
    by (simp add: totalLength_def featureTableLength_def batchTableLength_def)
  note fh = fieldAt_headerBytes [OF assms(1) T, of "fitTo (nat ?T - 28) (ft @ bt @ glb)"]
  have f8: "readInt32LE ?out 8 = Inr ?T"
    using rd [of 8] fh(3) unfolding split by simp
  have f12: "readInt32LE ?out 12 = Inr (featureTableJSONByteLength h)"
    using rd [of 12] fh(4) unfolding split by simp
  have f16: "readInt32LE ?out 16 = Inr (featureTableBinaryByteLength h)"
    using rd [of 16] fh(5) unfolding split by simp
  have f20: "readInt32LE ?out 20 = Inr (batchTableJSONByteLength h)"
    using rd [of 20] fh(6) unfolding split by simp
  have f24: "readInt32LE ?out 24 = Inr (batchTableBinaryByteLength h)"
    using rd [of 24] fh(7) unfolding split by simp
  from enc len f8 f12 f16 f20 f24 same tot show ?thesis by blast
qed

section \<open>Decoding and encoding again\<close>

lemma subarray_inrange:
  assumes "0 \<le> s" and "s \<le> e" and "e \<le> int (length B)"
  shows "subarray B s e = take (nat (e - s)) (drop (nat s) B)"
proof -
  have "clampIndex (length B) s = nat s" "clampIndex (length B) e = nat e"
    using assms by (simp_all add: clampIndex_def)
  moreover have "nat e - nat s = nat (e - s)" using assms by simp
  ultimately show ?thesis by (simp add: subarray_def)
qed

lemma decode_long:
  "28 \<le> length buffer \<Longrightarrow> \<exists>h. readHeader buffer = Inr h \<and>
     decode buffer = Inr \<lparr>header = h,
            featureTable = subarray buffer featureTableStart (featureTableStart + featureTableLength h),
            batchTable = subarray buffer (batchTableStart h) (batchTableStart h + batchTableLength h),
            glbBytes = subarray buffer (glbStart h) (byteLength h)\<rparr>"
  by (simp add: decode_def readHeader_long)

lemma header_bytes_of_buffer:
  assumes "28 \<le> length B" and h: "readHeader B = Inr h"
  shows "headerBytes h (byteLength h) = take 28 B" and "headerInRange h"
proof -
  have hh: "h = \<lparr>magic = fieldAt B 0, version = fieldAt B 4, byteLength = fieldAt B 8,
          featureTableJSONByteLength = fieldAt B 12,
          featureTableBinaryByteLength = fieldAt B 16,
          batchTableJSONByteLength = fieldAt B 20,
          batchTableBinaryByteLength = fieldAt B 24\<rparr>"
    using readHeader_long [OF assms(1)] h by simp
  have t: "int32Bytes (fieldAt B off) = take 4 (drop off B)" if "off + 4 \<le> 28" for off
    using that assms(1) by (intro int32Bytes_fieldAt) simp
  have ta: "take 4 (drop k B) @ take n (drop (k + 4) B) = take (4 + n) (drop k B)" for k n
    unfolding take_add [of 4 n "drop k B"] by (simp add: add.commute)
  have "headerBytes h (byteLength h) =
      take 4 (drop 0 B) @ take 4 (drop 4 B) @ take 4 (drop 8 B) @ take 4 (drop 12 B) @
      take 4 (drop 16 B) @ take 4 (drop 20 B) @ take 4 (drop 24 B)"
    unfolding headerBytes_def hh by (simp add: t)
  also have "\<dots> = take 28 B"
    using ta [of 20 4] ta [of 16 8] ta [of 12 12] ta [of 8 16] ta [of 4 20] ta [of 0 24]
    by simp
  finally show "headerBytes h (byteLength h) = take 28 B" .
  show "headerInRange h" unfolding hh headerInRange_def
    using assms(1) by (simp add: fieldAt_isInt32)
qed

lemma take_drop_take: "k + n \<le> L \<Longrightarrow> take n (drop k (take L B)) = take n (drop k B)"
  by (simp add: drop_take min_def)

lemma roundtrip_valid:
  assumes "validContainer B"
  shows "\<exists>c. decode B = Inr c \<and>
           encode (header c) (featureTable c) (batchTable c) (glbBytes c)
             = Inr (take (nat (byteLength (header c))) B) \<and>
           take (nat (byteLength (header c))) B
             = take 28 B @ featureTable c @ batchTable c @ glbBytes c \<and>
           (\<exists>c'. decode (take (nat (byteLength (header c))) B) = Inr c' \<and>
              featureTable c' = featureTable c \<and> batchTable c' = batchTable c \<and>
              glbBytes c' = glbBytes c)"
proof -
  from assms have len: "28 \<le> length B" by (simp add: validContainer_def)
  define h where "h = \<lparr>magic = fieldAt B 0, version = fieldAt B 4, byteLength = fieldAt B 8,
          featureTableJSONByteLength = fieldAt B 12,
          featureTableBinaryByteLength = fieldAt B 16,
          batchTableJSONByteLength = fieldAt B 20,
          batchTableBinaryByteLength = fieldAt B 24\<rparr>"
  have rh: "readHeader B = Inr h" unfolding h_def using len by (rule readHeader_long)
  define a where "a = nat (featureTableLength h)"
  define b where "b = nat (batchTableLength h)"
  define L where "L = nat (byteLength h)"
  have nonneg: "0 \<le> featureTableLength h" "0 \<le> batchTableLength h"
    and bound: "28 + featureTableLength h + batchTableLength h \<le> byteLength h"
    and Lb: "byteLength h \<le> int (length B)"
    using assms by (simp_all add: validContainer_def h_def featureTableLength_def batchTableLength_def)
  have ia: "featureTableLength h = int a" and ib: "batchTableLength h = int b"
    and iL: "byteLength h = int L"
    using nonneg bound by (simp_all add: a_def b_def L_def)
  have abL: "28 + a + b \<le> L" and LB: "L \<le> length B"
    using bound Lb unfolding ia ib iL by linarith+
  have bs: "batchTableStart h = int (28 + a)"
    using ia by (simp add: batchTableStart_def featureTableStart_def featureTableLength_def)
  have gs: "glbStart h = int (28 + a + b)"
    using bs ib by (simp add: glbStart_def)
  have n1: "nat (28 + int a) = 28 + a" by linarith
  have n2: "nat (28 + (int a + int b)) = 28 + a + b" "nat (28 + int a + int b) = 28 + a + b" by linarith+
  define ft where "ft = take a (drop 28 B)"
  define bt where "bt = take b (drop (28 + a) B)"
  define glb where "glb = take (L - (28 + a + b)) (drop (28 + a + b) B)"
  have sft: "subarray X featureTableStart (featureTableStart + featureTableLength h) = take a (drop 28 X)"
    if "L \<le> length X" for X :: "byte list"
    using that abL unfolding ia featureTableStart_def
    by (subst subarray_inrange) simp_all
  have sbt: "subarray X (batchTableStart h) (batchTableStart h + batchTableLength h) = take b (drop (28 + a) X)"
    if "L \<le> length X" for X :: "byte list"
    using that abL unfolding ib bs
    by (subst subarray_inrange) (simp_all add: n1)
  have sglb: "subarray X (glbStart h) (byteLength h) = take (L - (28 + a + b)) (drop (28 + a + b) X)"
    if "L \<le> length X" for X :: "byte list"
  proof -
    have "nat (int L - int (28 + a + b)) = L - (28 + a + b)" by simp
    then show ?thesis
      using that abL unfolding iL gs
      by (subst subarray_inrange) (simp_all add: n2)
  qed
  define c where "c = \<lparr>header = h, featureTable = ft, batchTable = bt, glbBytes = glb\<rparr>"
  have dec: "decode B = Inr c"
    by (simp add: decode_def rh c_def ft_def bt_def glb_def sft [OF LB] sbt [OF LB] sglb [OF LB])
  have lens: "length ft = a" "length bt = b" "length glb = L - (28 + a + b)"
    using abL LB by (simp_all add: ft_def bt_def glb_def)
  have tl: "totalLength h glb = int L"
    using abL by (simp add: totalLength_def ia ib lens)
  have hb: "headerBytes h (int L) = take 28 B" and hr: "headerInRange h"
    using header_bytes_of_buffer [OF len rh] by (simp_all add: iL)
  have L31: "int L < 2 ^ 31"
    using fieldAt_isInt32 [of 8 B] len by (simp add: isInt32_def h_def flip: iL)
  have whole: "take 28 B @ ft @ bt @ glb = take L B"
  proof -
    have "take L B = take (28 + (a + (b + (L - (28 + a + b))))) B" using abL by simp
    also have "\<dots> = take 28 B @ take (a + (b + (L - (28 + a + b)))) (drop 28 B)"
      by (rule take_add)
    also have "take (a + (b + (L - (28 + a + b)))) (drop 28 B) =
        take a (drop 28 B) @ take (b + (L - (28 + a + b))) (drop a (drop 28 B))"
      by (rule take_add)
    also have "drop a (drop 28 B) = drop (28 + a) B" by (simp add: add.commute)
    also have "take (b + (L - (28 + a + b))) (drop (28 + a) B) =
        take b (drop (28 + a) B) @ take (L - (28 + a + b)) (drop b (drop (28 + a) B))"
      by (rule take_add)
    also have "drop b (drop (28 + a) B) = drop (28 + a + b) B" by (simp add: add.commute)
    finally show ?thesis by (simp only: ft_def bt_def glb_def)
  qed
  have enc: "encode h ft bt glb = Inr (take L B)"
  proof -
    have "encode h ft bt glb = Inr (fitTo (nat (totalLength h glb)) (headerBytes h (totalLength h glb) @ ft @ bt @ glb))"
      using hr L31 by (intro encode_ok) (simp_all add: tl)
    also have "\<dots> = Inr (fitTo L (take L B))" by (simp add: tl hb whole)
    also have "\<dots> = Inr (take L B)" using fitTo_exact [of "take L B"] LB by simp
    finally show ?thesis .
  qed
  have dec': "decode (take L B) = Inr c"
  proof -
    have l': "28 \<le> length (take L B)" and LL: "L \<le> length (take L B)" using abL LB by simp_all
    have f: "fieldAt (take L B) off = fieldAt B off" if "off + 4 \<le> 28" for off
      using that abL by (simp add: fieldAt_def take_drop_take)
    have rh': "readHeader (take L B) = Inr h"
      unfolding h_def using readHeader_long [OF l'] by (simp add: f)
    have e1: "take a (drop 28 (take L B)) = ft"
      unfolding ft_def using abL by (intro take_drop_take) simp
    have e2: "take b (drop (28 + a) (take L B)) = bt"
      unfolding bt_def using abL by (intro take_drop_take) simp
    have e3: "take (L - (28 + a + b)) (drop (28 + a + b) (take L B)) = glb"
      unfolding glb_def using abL by (intro take_drop_take) simp
    show ?thesis
      by (simp add: decode_def rh' c_def sft [OF LL] sbt [OF LL] sglb [OF LL] e1 e2 e3)
  qed
  have "decode B = Inr c \<and>
           encode (header c) (featureTable c) (batchTable c) (glbBytes c)
             = Inr (take (nat (byteLength (header c))) B) \<and>
           take (nat (byteLength (header c))) B
             = take 28 B @ featureTable c @ batchTable c @ glbBytes c \<and>
           (\<exists>c'. decode (take (nat (byteLength (header c))) B) = Inr c' \<and>
              featureTable c' = featureTable c \<and> batchTable c' = batchTable c \<and>
              glbBytes c' = glbBytes c)"
    using dec enc whole dec' by (simp add: c_def L_def)
  then show ?thesis by (rule exI)
qed

text \<open>
  The container branch as a whole, when the external library returns the payload it was
  given: a valid container is written back unchanged up to its declared total length.
\<close>

lemma compress_b3dm_identity:
  assumes "validContainer B"
  shows "compress_b3dm Some B = Inr (take (nat (fieldAt B 8)) B)"
proof -
  from roundtrip_valid [OF assms] obtain c where
    d: "decode B = Inr c" and
    e: "encode (header c) (featureTable c) (batchTable c) (glbBytes c)
          = Inr (take (nat (byteLength (header c))) B)" by blast
  from assms have "28 \<le> length B" by (simp add: validContainer_def)
  from decode_long [OF this] d have "byteLength (header c) = fieldAt B 8"
    using readHeader_long [OF \<open>28 \<le> length B\<close>] by auto
  with d e show ?thesis by (simp add: compress_b3dm_def)
qed

text \<open>
  C3. For every valid container buffer (at least 28 bytes, table lengths not negative, the
  tables inside the declared total length, the total length inside the buffer), decoding
  succeeds and encoding the decoded header, side tables and unchanged payload gives back
  the container itself, byte for byte, up to its declared total length. The output is the
  header followed by the same feature-table, batch-table and payload bytes, and decoding it
  again yields the same three segments.
\<close>

theorem container_roundtrip:
  assumes "validContainer B"
  shows "\<exists>c. decode B = Inr c \<and>
           encode (header c) (featureTable c) (batchTable c) (glbBytes c)
             = Inr (take (nat (byteLength (header c))) B) \<and>
           take (nat (byteLength (header c))) B
             = take 28 B @ featureTable c @ batchTable c @ glbBytes c \<and>
           (\<exists>c'. decode (take (nat (byteLength (header c))) B) = Inr c' \<and>
              featureTable c' = featureTable c \<and> batchTable c' = batchTable c \<and>
              glbBytes c' = glbBytes c)"
  using assms by (rule roundtrip_valid)

section \<open>The codec on concrete containers\<close>

lemma scenarioA_fields:
  "fieldAt scenarioA 0 = 1835283298" "fieldAt scenarioA 4 = 1" "fieldAt scenarioA 8 = 138"
  "fieldAt scenarioA 12 = 10" "fieldAt scenarioA 16 = 0" "fieldAt scenarioA 20 = 0" "fieldAt scenarioA 24 = 0"
  by (simp_all add: scenarioA_def fieldAt_def leValue_def)

lemma length_scenarioA: "length scenarioA = 138"
  by (simp add: scenarioA_def)

lemma decode_scenarioA:
  "decode scenarioA =
     Inr \<lparr>header = scenarioA_header, featureTable = replicate 10 0x20, batchTable = [],
          glbBytes = replicate 100 0x67\<rparr>"
proof -
  have rh: "readHeader scenarioA = Inr scenarioA_header"
    using readHeader_long [of scenarioA]
    by (simp add: length_scenarioA scenarioA_fields scenarioA_header_def)
  have s1: "subarray scenarioA 28 38 = replicate 10 0x20"
    by (subst subarray_inrange) (simp_all add: length_scenarioA, simp add: scenarioA_def)
  have s2: "subarray scenarioA 38 38 = []"
    by (subst subarray_inrange) (simp_all add: length_scenarioA)
  have s3: "subarray scenarioA 38 138 = replicate 100 0x67"
    by (subst subarray_inrange) (simp_all add: length_scenarioA, simp add: scenarioA_def)
  show ?thesis
    by (simp add: decode_def rh featureTableStart_def featureTableLength_def batchTableStart_def
        batchTableLength_def glbStart_def scenarioA_header_def s1 s2 s3)
qed

lemma validContainer_scenarioA: "validContainer scenarioA"
  by (simp add: validContainer_def scenarioA_fields length_scenarioA)

theorem container_roundtrip_witness:
  "validContainer scenarioA \<and>
   (\<exists>c. decode scenarioA = Inr c \<and>
        encode (header c) (featureTable c) (batchTable c) (glbBytes c) = Inr scenarioA)"
proof -
  from container_roundtrip [OF validContainer_scenarioA] obtain c where
    d: "decode scenarioA = Inr c" and
    e: "encode (header c) (featureTable c) (batchTable c) (glbBytes c)
          = Inr (take (nat (byteLength (header c))) scenarioA)" by blast
  from d have "byteLength (header c) = 138" by (auto simp: decode_scenarioA scenarioA_header_def)
  with e have "encode (header c) (featureTable c) (batchTable c) (glbBytes c) = Inr scenarioA"
    by (simp add: length_scenarioA)
  with d validContainer_scenarioA show ?thesis by blast
qed

lemma decode_Inr_header:
  assumes "decode buffer = Inr c"
  shows "28 \<le> length buffer" and "readHeader buffer = Inr (header c)"
    and "featureTable c = subarray buffer featureTableStart (featureTableStart + featureTableLength (header c))"
    and "batchTable c = subarray buffer (batchTableStart (header c)) (batchTableStart (header c) + batchTableLength (header c))"
    and "glbBytes c = subarray buffer (glbStart (header c)) (byteLength (header c))"
proof -
  show l: "28 \<le> length buffer"
  proof (rule ccontr)
    assume "\<not> 28 \<le> length buffer"
    then have "decode buffer = Inl RangeError" by (simp add: decode_def readHeader_short)
    with assms show False by simp
  qed
  from readHeader_long [OF l] obtain h where h: "readHeader buffer = Inr h" by blast
  with assms have c: "c = \<lparr>header = h,
            featureTable = subarray buffer featureTableStart (featureTableStart + featureTableLength h),
            batchTable = subarray buffer (batchTableStart h) (batchTableStart h + batchTableLength h),
            glbBytes = subarray buffer (glbStart h) (byteLength h)\<rparr>"
    by (simp add: decode_def)
  show "readHeader buffer = Inr (header c)" using h c by simp
  show "featureTable c = subarray buffer featureTableStart (featureTableStart + featureTableLength (header c))"
    using c by simp
  show "batchTable c = subarray buffer (batchTableStart (header c)) (batchTableStart (header c) + batchTableLength (header c))"
    using c by simp
  show "glbBytes c = subarray buffer (glbStart (header c)) (byteLength (header c))"
    using c by simp
qed

lemma readHeader_fields:
  assumes "readHeader buffer = Inr h"
  shows "readInt32LE buffer 0 = Inr (magic h)" "readInt32LE buffer 4 = Inr (version h)"
    "readInt32LE buffer 8 = Inr (byteLength h)"
    "readInt32LE buffer 12 = Inr (featureTableJSONByteLength h)"
    "readInt32LE buffer 16 = Inr (featureTableBinaryByteLength h)"
    "readInt32LE buffer 20 = Inr (batchTableJSONByteLength h)"
    "readInt32LE buffer 24 = Inr (batchTableBinaryByteLength h)"
    "headerInRange h"
proof -
  have l: "28 \<le> length buffer"
  proof (rule ccontr)
    assume "\<not> 28 \<le> length buffer"
    then have "readHeader buffer = Inl RangeError" by (simp add: readHeader_short)
    with assms show False by simp
  qed
  from readHeader_long [OF l] assms have h: "h = \<lparr>magic = fieldAt buffer 0, version = fieldAt buffer 4, byteLength = fieldAt buffer 8,
          featureTableJSONByteLength = fieldAt buffer 12,
          featureTableBinaryByteLength = fieldAt buffer 16,
          batchTableJSONByteLength = fieldAt buffer 20,
          batchTableBinaryByteLength = fieldAt buffer 24\<rparr>" by simp
  show "readInt32LE buffer 0 = Inr (magic h)" "readInt32LE buffer 4 = Inr (version h)"
    "readInt32LE buffer 8 = Inr (byteLength h)"
    "readInt32LE buffer 12 = Inr (featureTableJSONByteLength h)"
    "readInt32LE buffer 16 = Inr (featureTableBinaryByteLength h)"
    "readInt32LE buffer 20 = Inr (batchTableJSONByteLength h)"
    "readInt32LE buffer 24 = Inr (batchTableBinaryByteLength h)"
    using l by (simp_all add: readInt32LE_if h)
  show "headerInRange h" using header_bytes_of_buffer(2) [OF l assms] .
qed

lemma extractGlb_decode:
  assumes "28 \<le> length buffer"
  shows "extractGlb buffer = (case decode buffer of Inl e \<Rightarrow> Inl e | Inr c \<Rightarrow> Inr (glbBytes c))"
  using assms
  by (simp add: extractGlb_long decode_def readHeader_long glbStart_def batchTableStart_def
      batchTableLength_def add.assoc)

text \<open>
  C6. For every decoded container the feature table starts at 28 and has the length
  JSON + binary of the feature fields read from the header; the batch table starts where the
  feature table ends and has the length JSON + binary of the batch fields; the payload
  starts where the batch table ends and is sliced up to the total length field, in the
  compression script and in the extraction script alike. The fields are the values read at
  offsets 8 to 24. With a 10-byte feature table JSON, the other
  lengths 0 and a total of 138 in a 138-byte buffer, the payload starts at 38, is the 100
  bytes up to 138, and encoding with any 100-byte payload writes the total 138.
\<close>

theorem decode_offsets:
  assumes "decode buffer = Inr c"
  shows "featureTableStart = 28 \<and>
     featureTableLength (header c) =
       featureTableJSONByteLength (header c) + featureTableBinaryByteLength (header c) \<and>
     batchTableStart (header c) = featureTableStart + featureTableLength (header c) \<and>
     batchTableLength (header c) =
       batchTableJSONByteLength (header c) + batchTableBinaryByteLength (header c) \<and>
     glbStart (header c) = batchTableStart (header c) + batchTableLength (header c) \<and>
     featureTable c =
       subarray buffer featureTableStart (featureTableStart + featureTableLength (header c)) \<and>
     batchTable c =
       subarray buffer (batchTableStart (header c))
         (batchTableStart (header c) + batchTableLength (header c)) \<and>
     glbBytes c = subarray buffer (glbStart (header c)) (byteLength (header c)) \<and>
     extractGlb buffer = Inr (subarray buffer (glbStart (header c)) (byteLength (header c))) \<and>
     readInt32LE buffer 8 = Inr (byteLength (header c)) \<and>
     readInt32LE buffer 12 = Inr (featureTableJSONByteLength (header c)) \<and>
     readInt32LE buffer 16 = Inr (featureTableBinaryByteLength (header c)) \<and>
     readInt32LE buffer 20 = Inr (batchTableJSONByteLength (header c)) \<and>
     readInt32LE buffer 24 = Inr (batchTableBinaryByteLength (header c)) \<and>
     (featureTableJSONByteLength (header c) = 10 \<and>
      featureTableBinaryByteLength (header c) = 0 \<and>
      batchTableJSONByteLength (header c) = 0 \<and>
      batchTableBinaryByteLength (header c) = 0 \<and>
      byteLength (header c) = 138 \<and> length buffer = 138 \<longrightarrow>
        glbStart (header c) = 38 \<and> glbBytes c = drop 38 buffer \<and> length (glbBytes c) = 100 \<and>
        (\<forall>glb. length glb = 100 \<longrightarrow>
           totalLength (header c) glb = 138 \<and>
           (\<exists>out. encode (header c) (featureTable c) (batchTable c) glb = Inr out \<and>
              readInt32LE out 8 = Inr 138 \<and> length out = 138)))"
proof -
  note d = decode_Inr_header [OF assms]
  note f = readHeader_fields [OF d(2)]
  have offs: "featureTableStart = 28"
    "featureTableLength (header c) =
       featureTableJSONByteLength (header c) + featureTableBinaryByteLength (header c)"
    "batchTableStart (header c) = featureTableStart + featureTableLength (header c)"
    "batchTableLength (header c) =
       batchTableJSONByteLength (header c) + batchTableBinaryByteLength (header c)"
    "glbStart (header c) = batchTableStart (header c) + batchTableLength (header c)"
    by (simp_all add: featureTableStart_def featureTableLength_def batchTableStart_def
        batchTableLength_def glbStart_def)
  have scen: "glbStart (header c) = 38 \<and> glbBytes c = drop 38 buffer \<and> length (glbBytes c) = 100 \<and>
        (\<forall>glb. length glb = 100 \<longrightarrow>
           totalLength (header c) glb = 138 \<and>
           (\<exists>out. encode (header c) (featureTable c) (batchTable c) glb = Inr out \<and>
              readInt32LE out 8 = Inr 138 \<and> length out = 138))"
    if A: "featureTableJSONByteLength (header c) = 10" "featureTableBinaryByteLength (header c) = 0"
      "batchTableJSONByteLength (header c) = 0" "batchTableBinaryByteLength (header c) = 0"
      "byteLength (header c) = 138" "length buffer = 138"
  proof -
    have g: "glbStart (header c) = 38" using A by (simp add: offs)
    have gb: "glbBytes c = drop 38 buffer"
      unfolding d(5) g A(5) using A(6) by (subst subarray_inrange) simp_all
    have gl: "length (glbBytes c) = 100" using gb A(6) by simp
    have enc: "totalLength (header c) glb = 138 \<and>
           (\<exists>out. encode (header c) (featureTable c) (batchTable c) glb = Inr out \<and>
              readInt32LE out 8 = Inr 138 \<and> length out = 138)" if "length glb = 100" for glb
    proof -
      have t: "totalLength (header c) glb = 138"
        using A that by (simp add: totalLength_def featureTableLength_def batchTableLength_def)
      from encode_fields [OF f(8), of glb "featureTable c" "batchTable c"] t
      obtain out where "encode (header c) (featureTable c) (batchTable c) glb = Inr out"
        "int (length out) = 138" "readInt32LE out 8 = Inr 138" by auto
      then show ?thesis using t by auto
    qed
    from g gb gl enc show ?thesis by blast
  qed
  have ex: "extractGlb buffer = Inr (subarray buffer (glbStart (header c)) (byteLength (header c)))"
    using extractGlb_decode [OF d(1)] assms d(5) by simp
  from offs d(3,4,5) ex f(3,4,5,6,7) scen show ?thesis by blast
qed

text \<open>
  C10. Every buffer of at least 28 bytes is decoded without error, whatever its fields say.
  The payload is the clamped slice from the payload start to the total length field: it is
  never longer than the buffer, it is empty when the payload start lies at or beyond the end
  of the buffer, and it runs to the end of the buffer when the total length field lies at or
  beyond it. The extraction script returns the same slice. The worker's slice runs from the
  payload start to the end of the buffer and does not use the total length field.
\<close>

theorem decode_never_rejects:
  assumes "28 \<le> length buffer"
  shows "\<exists>c. decode buffer = Inr c \<and>
      glbBytes c = subarray buffer (glbStart (header c)) (byteLength (header c)) \<and>
      length (glbBytes c) \<le> length buffer \<and>
      (int (length buffer) \<le> glbStart (header c) \<longrightarrow> glbBytes c = []) \<and>
      (0 \<le> glbStart (header c) \<and> int (length buffer) \<le> byteLength (header c) \<longrightarrow>
         glbBytes c = drop (nat (glbStart (header c))) buffer) \<and>
      extractGlb buffer = Inr (glbBytes c) \<and>
      workerGlbBytes buffer = Inr (subarray buffer (glbStart (header c)) (int (length buffer)))"
proof -
  from decode_long [OF assms] obtain h where rh: "readHeader buffer = Inr h"
    and dec: "decode buffer = Inr \<lparr>header = h,
            featureTable = subarray buffer featureTableStart (featureTableStart + featureTableLength h),
            batchTable = subarray buffer (batchTableStart h) (batchTableStart h + batchTableLength h),
            glbBytes = subarray buffer (glbStart h) (byteLength h)\<rparr>" by blast
  note f = readHeader_fields [OF rh]
  have len: "length (subarray buffer s e) \<le> length buffer" for s e
    by (simp add: subarray_def Let_def)
  have beyond: "subarray buffer s e = []" if "int (length buffer) \<le> s" for s e
    using that by (simp add: subarray_def clampIndex_def Let_def)
  have trunc: "subarray buffer s e = drop (nat s) buffer" if "0 \<le> s" "int (length buffer) \<le> e" for s e
    using that by (simp add: subarray_def clampIndex_def Let_def min_def)
  have toend: "subarrayFrom buffer s = subarray buffer s (int (length buffer))" for s
    by (simp add: subarrayFrom_def subarray_def clampIndex_def Let_def)
  have g: "28 + featureTableJSONByteLength h + featureTableBinaryByteLength h
      + batchTableJSONByteLength h + batchTableBinaryByteLength h = glbStart h"
    by (simp add: glbStart_def batchTableStart_def batchTableLength_def featureTableStart_def)
  have w: "workerGlbBytes buffer = Inr (subarray buffer (glbStart h) (int (length buffer)))"
    by (simp add: workerGlbBytes_def f toend g)
  have ex: "extractGlb buffer = Inr (subarray buffer (glbStart h) (byteLength h))"
    using extractGlb_decode [OF assms] dec by simp
  show ?thesis using dec len beyond trunc w ex by (intro exI [of _ "\<lparr>header = h,
            featureTable = subarray buffer featureTableStart (featureTableStart + featureTableLength h),
            batchTable = subarray buffer (batchTableStart h) (batchTableStart h + batchTableLength h),
            glbBytes = subarray buffer (glbStart h) (byteLength h)\<rparr>"]) simp
qed

theorem decode_offsets_witness:
  "decode scenarioA =
     Inr \<lparr>header = scenarioA_header, featureTable = replicate 10 0x20, batchTable = [],
          glbBytes = replicate 100 0x67\<rparr> \<and>
   glbStart scenarioA_header = 38 \<and> byteLength scenarioA_header = 138 \<and>
   totalLength scenarioA_header (replicate 100 0x67) = 138 \<and>
   (\<exists>out. encode scenarioA_header (replicate 10 0x20) [] (replicate 100 0x67) = Inr out \<and>
      readInt32LE out 8 = Inr 138 \<and> length out = 138)"
proof -
  have l: "length (replicate 100 (0x67 :: byte)) = 100" by simp
  have h: "featureTableJSONByteLength scenarioA_header = 10 \<and>
      featureTableBinaryByteLength scenarioA_header = 0 \<and>
      batchTableJSONByteLength scenarioA_header = 0 \<and>
      batchTableBinaryByteLength scenarioA_header = 0 \<and>
      byteLength scenarioA_header = 138 \<and> length scenarioA = 138"
    by (simp add: scenarioA_header_def length_scenarioA)
  note T = decode_offsets [OF decode_scenarioA, unfolded b3dm.select_convs]
  from T h have g: "glbStart scenarioA_header = 38" by blast
  from T h have "\<forall>glb. length glb = 100 \<longrightarrow>
      totalLength scenarioA_header glb = 138 \<and>
      (\<exists>out. encode scenarioA_header (replicate 10 0x20) [] glb = Inr out \<and>
         readInt32LE out 8 = Inr 138 \<and> length out = 138)" by blast
  with l have "totalLength scenarioA_header (replicate 100 0x67) = 138 \<and>
      (\<exists>out. encode scenarioA_header (replicate 10 0x20) [] (replicate 100 0x67) = Inr out \<and>
         readInt32LE out 8 = Inr 138 \<and> length out = 138)" by blast
  with g h decode_scenarioA show ?thesis by blast
qed

theorem decode_never_rejects_witness:
  "28 \<le> length shortTotal \<and>
   (\<exists>c. decode shortTotal = Inr c \<and> byteLength (header c) = 30 \<and> glbBytes c = [1, 2]) \<and>
   workerGlbBytes shortTotal = Inr [1, 2, 3, 4] \<and>
   28 \<le> length inconsistentContainer \<and>
   (\<exists>c. decode inconsistentContainer = Inr c \<and> glbStart (header c) = 78 \<and> glbBytes c = [])"
proof -
  have l: "28 \<le> length shortTotal" by (simp add: shortTotal_def)
  from decode_never_rejects [OF l] obtain c where
    d: "decode shortTotal = Inr c"
    and g: "glbBytes c = subarray shortTotal (glbStart (header c)) (byteLength (header c))"
    and w: "workerGlbBytes shortTotal =
        Inr (subarray shortTotal (glbStart (header c)) (int (length shortTotal)))" by blast
  have "readHeader shortTotal = Inr (header c)" using d by (rule decode_Inr_header)
  then have h: "header c = \<lparr>magic = 1835283298, version = 1, byteLength = 30,
      featureTableJSONByteLength = 0, featureTableBinaryByteLength = 0,
      batchTableJSONByteLength = 0, batchTableBinaryByteLength = 0\<rparr>"
    using readHeader_long [OF l] by (simp add: shortTotal_def fieldAt_def leValue_def)
  have gs: "glbStart (header c) = 28"
    by (simp add: h glbStart_def batchTableStart_def batchTableLength_def featureTableStart_def)
  have "glbBytes c = [1, 2]"
    unfolding g gs by (simp add: h subarray_def clampIndex_def shortTotal_def)
  moreover have "workerGlbBytes shortTotal = Inr [1, 2, 3, 4]"
    unfolding w gs by (simp add: subarray_def clampIndex_def shortTotal_def)
  ultimately have first: "(\<exists>c. decode shortTotal = Inr c \<and> byteLength (header c) = 30 \<and>
      glbBytes c = [1, 2]) \<and> workerGlbBytes shortTotal = Inr [1, 2, 3, 4]"
    using d h by simp
  have l': "28 \<le> length inconsistentContainer" by (simp add: inconsistentContainer_def)
  from decode_never_rejects [OF l'] obtain c' where
    d': "decode inconsistentContainer = Inr c'"
    and e': "int (length inconsistentContainer) \<le> glbStart (header c') \<longrightarrow> glbBytes c' = []"
    by blast
  have "readHeader inconsistentContainer = Inr (header c')" using d' by (rule decode_Inr_header)
  then have h': "header c' = \<lparr>magic = 1835283298, version = 1, byteLength = 1000,
      featureTableJSONByteLength = 50, featureTableBinaryByteLength = 0,
      batchTableJSONByteLength = 0, batchTableBinaryByteLength = 0\<rparr>"
    using readHeader_long [OF l'] by (simp add: inconsistentContainer_def fieldAt_def leValue_def)
  have gs': "glbStart (header c') = 78"
    by (simp add: h' glbStart_def batchTableStart_def batchTableLength_def featureTableStart_def)
  have "int (length inconsistentContainer) \<le> glbStart (header c')"
    unfolding gs' by (simp add: inconsistentContainer_def)
  with e' have "glbBytes c' = []" by blast
  with d' gs' have second: "\<exists>c. decode inconsistentContainer = Inr c \<and>
      glbStart (header c) = 78 \<and> glbBytes c = []" by blast
  from l first l' second show ?thesis by blast
qed

lemma length_minimalGlb: "length minimalGlb = 48"
  by (simp add: minimalGlb_def)

lemma negativeLength_fields:
  "fieldAt negativeLengthContainer 0 = 1835283298" "fieldAt negativeLengthContainer 4 = 1"
  "fieldAt negativeLengthContainer 8 = 76" "fieldAt negativeLengthContainer 12 = - 4"
  "fieldAt negativeLengthContainer 16 = 0" "fieldAt negativeLengthContainer 20 = 4"
  "fieldAt negativeLengthContainer 24 = 0"
  by (simp_all add: negativeLengthContainer_def fieldAt_def leValue_def)

lemma plain_fields:
  "fieldAt plainContainer 0 = 1835283298" "fieldAt plainContainer 4 = 1"
  "fieldAt plainContainer 8 = 76" "fieldAt plainContainer 12 = 0"
  "fieldAt plainContainer 16 = 0" "fieldAt plainContainer 20 = 0"
  "fieldAt plainContainer 24 = 0"
  by (simp_all add: plainContainer_def fieldAt_def leValue_def)

lemma decode_negativeLength:
  "decode negativeLengthContainer =
     Inr \<lparr>header =
            \<lparr>magic = 1835283298, version = 1, byteLength = 76,
             featureTableJSONByteLength = - 4, featureTableBinaryByteLength = 0,
             batchTableJSONByteLength = 4, batchTableBinaryByteLength = 0\<rparr>,
          featureTable = [], batchTable = [0, 0, 0, 0], glbBytes = minimalGlb\<rparr>"
proof -
  have l: "length negativeLengthContainer = 76"
    by (simp add: negativeLengthContainer_def length_minimalGlb)
  have rh: "readHeader negativeLengthContainer =
      Inr \<lparr>magic = 1835283298, version = 1, byteLength = 76,
             featureTableJSONByteLength = - 4, featureTableBinaryByteLength = 0,
             batchTableJSONByteLength = 4, batchTableBinaryByteLength = 0\<rparr>"
    using readHeader_long [of negativeLengthContainer] by (simp add: l negativeLength_fields)
  have s1: "subarray negativeLengthContainer 28 24 = []"
    by (simp add: subarray_def clampIndex_def l)
  have s2: "subarray negativeLengthContainer 24 28 = [0, 0, 0, 0]"
    by (subst subarray_inrange) (simp_all add: l, simp add: negativeLengthContainer_def)
  have s3: "subarray negativeLengthContainer 28 76 = minimalGlb"
    by (subst subarray_inrange) (simp_all add: l, simp add: negativeLengthContainer_def length_minimalGlb)
  show ?thesis
    by (simp add: decode_def rh featureTableStart_def featureTableLength_def batchTableStart_def
        batchTableLength_def glbStart_def s1 s2 s3)
qed

lemma decode_plain:
  "decode plainContainer =
     Inr \<lparr>header =
            \<lparr>magic = 1835283298, version = 1, byteLength = 76,
             featureTableJSONByteLength = 0, featureTableBinaryByteLength = 0,
             batchTableJSONByteLength = 0, batchTableBinaryByteLength = 0\<rparr>,
          featureTable = [], batchTable = [], glbBytes = minimalGlb\<rparr>"
proof -
  have l: "length plainContainer = 76"
    by (simp add: plainContainer_def length_minimalGlb)
  have rh: "readHeader plainContainer =
      Inr \<lparr>magic = 1835283298, version = 1, byteLength = 76,
             featureTableJSONByteLength = 0, featureTableBinaryByteLength = 0,
             batchTableJSONByteLength = 0, batchTableBinaryByteLength = 0\<rparr>"
    using readHeader_long [of plainContainer] by (simp add: l plain_fields)
  have s1: "subarray plainContainer 28 28 = []"
    by (simp add: subarray_def clampIndex_def l)
  have s3: "subarray plainContainer 28 76 = minimalGlb"
    by (subst subarray_inrange) (simp_all add: l, simp add: plainContainer_def length_minimalGlb)
  show ?thesis
    by (simp add: decode_def rh featureTableStart_def featureTableLength_def batchTableStart_def
        batchTableLength_def glbStart_def s1 s3)
qed

lemma validContainer_plain: "validContainer plainContainer"
proof -
  have "length plainContainer = 76" by (simp add: plainContainer_def length_minimalGlb)
  then show ?thesis by (simp add: validContainer_def plain_fields)
qed

text \<open>
  C4, as stated, fails. The file \<open>negativeLengthContainer\<close> carries the same payload at
  the same place as the well-formed \<open>plainContainer\<close>, so the library is handed the same
  bytes for both. Its decoded feature table is empty, its batch table has 4 bytes and its
  payload 48; with the payload written back as it was read, the total written is 76, not
  the 80 = 28 + 0 + 4 + 48 that the lengths of the tables and the payload give, and the
  last 4 bytes of the payload are cut off.
\<close>

theorem encode_actual_lengths_counterexample:
  "validContainer plainContainer \<and>
   decode plainContainer =
     Inr \<lparr>header =
            \<lparr>magic = 1835283298, version = 1, byteLength = 76,
             featureTableJSONByteLength = 0, featureTableBinaryByteLength = 0,
             batchTableJSONByteLength = 0, batchTableBinaryByteLength = 0\<rparr>,
          featureTable = [], batchTable = [], glbBytes = minimalGlb\<rparr> \<and>
   decode negativeLengthContainer =
     Inr \<lparr>header =
            \<lparr>magic = 1835283298, version = 1, byteLength = 76,
             featureTableJSONByteLength = - 4, featureTableBinaryByteLength = 0,
             batchTableJSONByteLength = 4, batchTableBinaryByteLength = 0\<rparr>,
          featureTable = [], batchTable = [0, 0, 0, 0], glbBytes = minimalGlb\<rparr> \<and>
   compress_b3dm Some negativeLengthContainer =
     Inr (take 28 negativeLengthContainer @ [0, 0, 0, 0] @ take 44 minimalGlb) \<and>
   readInt32LE (take 28 negativeLengthContainer @ [0, 0, 0, 0] @ take 44 minimalGlb) 8 = Inr 76 \<and>
   28 + int (length ([] :: byte list)) + int (length [0, 0, 0, 0 :: byte])
      + int (length minimalGlb) = 80"
proof -
  have e: "encode \<lparr>magic = 1835283298, version = 1, byteLength = 76,
             featureTableJSONByteLength = - 4, featureTableBinaryByteLength = 0,
             batchTableJSONByteLength = 4, batchTableBinaryByteLength = 0\<rparr>
           [] [0, 0, 0, 0] minimalGlb =
         Inr (take 28 negativeLengthContainer @ [0, 0, 0, 0] @ take 44 minimalGlb)"
    by (simp add: encode_def writeHeader_def writeInt32LE_def int32Bytes_def concatBuffers_def
        fitTo_def totalLength_def featureTableLength_def batchTableLength_def
        negativeLengthContainer_def minimalGlb_def)
  have c: "compress_b3dm Some negativeLengthContainer =
     Inr (take 28 negativeLengthContainer @ [0, 0, 0, 0] @ take 44 minimalGlb)"
    by (simp add: compress_b3dm_def decode_negativeLength e)
  have r: "readInt32LE (take 28 negativeLengthContainer @ [0, 0, 0, 0] @ take 44 minimalGlb) 8
      = Inr 76"
    by (simp add: readInt32LE_def negativeLengthContainer_def minimalGlb_def leValue_def)
  have a: "28 + int (length ([] :: byte list)) + int (length [0, 0, 0, 0 :: byte])
      + int (length minimalGlb) = 80"
    by (simp add: length_minimalGlb)
  show ?thesis
    using validContainer_plain decode_plain decode_negativeLength c r a by (intro conjI)
qed

text \<open>
  Whatever payload the library writes back for this file, the total written is 4 less than
  the lengths of the tables and the payload add up to.
\<close>

lemma negativeLength_any_payload:
  assumes "rewriteGlb minimalGlb = Some glb" and "28 + int (length glb) < 2 ^ 31"
  shows "\<exists>out. compress_b3dm rewriteGlb negativeLengthContainer = Inr out \<and>
           readInt32LE out 8 = Inr (28 + int (length glb)) \<and>
           int (length out) = 28 + int (length glb) \<and>
           28 + int (length ([] :: byte list)) + int (length [0, 0, 0, 0 :: byte]) + int (length glb)
             = 32 + int (length glb)"
proof -
  let ?h = "\<lparr>magic = 1835283298, version = 1, byteLength = 76,
             featureTableJSONByteLength = - 4, featureTableBinaryByteLength = 0,
             batchTableJSONByteLength = 4, batchTableBinaryByteLength = 0\<rparr>"
  have r: "headerInRange ?h" by (simp add: headerInRange_def isInt32_def)
  have t: "totalLength ?h glb = 28 + int (length glb)"
    by (simp add: totalLength_def featureTableLength_def batchTableLength_def)
  have t28: "28 \<le> totalLength ?h glb" and t31: "totalLength ?h glb < 2 ^ 31"
    using assms(2) by (simp_all add: t)
  from encode_fields [OF r t28 t31, of "[]" "[0, 0, 0, 0]" 0] obtain out where
    "encode ?h [] [0, 0, 0, 0] glb = Inr out" "int (length out) = totalLength ?h glb"
    "readInt32LE out 8 = Inr (totalLength ?h glb)" by blast
  then have "compress_b3dm rewriteGlb negativeLengthContainer = Inr out \<and>
           readInt32LE out 8 = Inr (28 + int (length glb)) \<and>
           int (length out) = 28 + int (length glb)"
    unfolding t by (simp add: compress_b3dm_def decode_negativeLength assms(1))
  then show ?thesis by auto
qed

text \<open>
  The tables of a decoded file have their declared lengths when these are not negative and
  the payload slice is not empty.
\<close>

lemma decoded_tables_exact:
  assumes d: "decode buffer = Inr c"
    and f: "0 \<le> featureTableLength (header c)" and b: "0 \<le> batchTableLength (header c)"
    and g: "glbBytes c \<noteq> []"
  shows "int (length (featureTable c)) = featureTableLength (header c)"
    and "int (length (batchTable c)) = batchTableLength (header c)"
proof -
  let ?h = "header c"
  let ?n = "int (length buffer)"
  note D = decode_Inr_header [OF d]
  have gs: "glbStart ?h = 28 + featureTableLength ?h + batchTableLength ?h"
    by (simp add: glbStart_def batchTableStart_def featureTableStart_def featureTableLength_def)
  have bs: "batchTableStart ?h = 28 + featureTableLength ?h"
    by (simp add: batchTableStart_def featureTableStart_def featureTableLength_def)
  have inside: "glbStart ?h < ?n"
  proof (rule ccontr)
    assume "\<not> glbStart ?h < ?n"
    then have "clampIndex (length buffer) (glbStart ?h) = length buffer"
      using gs f b by (simp add: clampIndex_def)
    then have "subarray buffer (glbStart ?h) (byteLength ?h) = []"
      by (simp add: subarray_def)
    with D(5) g show False by simp
  qed
  have "featureTable c = take (nat (featureTableLength ?h)) (drop 28 buffer)"
    unfolding D(3) featureTableStart_def
    using f b inside gs by (subst subarray_inrange) simp_all
  then show "int (length (featureTable c)) = featureTableLength ?h"
    using f b inside gs by simp
  have "batchTable c = take (nat (batchTableLength ?h)) (drop (nat (28 + featureTableLength ?h)) buffer)"
    unfolding D(4) bs
    using f b inside gs by (subst subarray_inrange) simp_all
  then show "int (length (batchTable c)) = batchTableLength ?h"
    using f b inside gs by simp
qed

text \<open>
  C4, amended. For every header whose copied fields are 32-bit values, every pair of side
  tables and every payload: the total is 28 plus the sum of the header's two feature-table
  length fields plus the sum of its two batch-table length fields plus the length of the
  payload (the lengths of the supplied side-table bytes are not measured, and the header's
  own total is not used). When this total lies between 28 and the largest 32-bit value, the
  output has exactly that many bytes, carries the total at offset 8 and the four table
  length fields unchanged at offsets 12 to 24. When header and tables come from decoding a
  file whose two declared table lengths are not negative and whose payload slice is not
  empty, the tables have their declared lengths, so the total is 28 plus the lengths of
  the supplied tables and payload, and the output is the header, the tables and the
  payload in full.
\<close>

theorem encode_total:
  assumes "headerInRange h" and "28 \<le> totalLength h glb" and "totalLength h glb < 2 ^ 31"
  shows "totalLength h glb =
           28 + (featureTableJSONByteLength h + featureTableBinaryByteLength h)
              + (batchTableJSONByteLength h + batchTableBinaryByteLength h) + int (length glb) \<and>
         (\<exists>out. encode h ft bt glb = Inr out \<and>
            int (length out) = totalLength h glb \<and>
            readInt32LE out 8 = Inr (totalLength h glb) \<and>
            readInt32LE out 12 = Inr (featureTableJSONByteLength h) \<and>
            readInt32LE out 16 = Inr (featureTableBinaryByteLength h) \<and>
            readInt32LE out 20 = Inr (batchTableJSONByteLength h) \<and>
            readInt32LE out 24 = Inr (batchTableBinaryByteLength h)) \<and>
         encode (h\<lparr>byteLength := b\<rparr>) ft bt glb = encode h ft bt glb \<and>
         (decode buffer = Inr \<lparr>header = h, featureTable = ft, batchTable = bt, glbBytes = payload\<rparr> \<and>
          0 \<le> featureTableLength h \<and> 0 \<le> batchTableLength h \<and> payload \<noteq> [] \<longrightarrow>
            int (length ft) = featureTableLength h \<and> int (length bt) = batchTableLength h \<and>
            totalLength h glb = 28 + int (length ft) + int (length bt) + int (length glb) \<and>
            encode h ft bt glb = Inr (headerBytes h (totalLength h glb) @ ft @ bt @ glb))"
proof -
  note F = encode_fields [OF assms, of ft bt b]
  have R: "int (length ft) = featureTableLength h \<and> int (length bt) = batchTableLength h \<and>
      totalLength h glb = 28 + int (length ft) + int (length bt) + int (length glb) \<and>
      encode h ft bt glb = Inr (headerBytes h (totalLength h glb) @ ft @ bt @ glb)"
    if d: "decode buffer = Inr \<lparr>header = h, featureTable = ft, batchTable = bt, glbBytes = payload\<rparr>"
      and f: "0 \<le> featureTableLength h" and bl: "0 \<le> batchTableLength h" and g: "payload \<noteq> []"
  proof -
    let ?c = "\<lparr>header = h, featureTable = ft, batchTable = bt, glbBytes = payload\<rparr>"
    have lf: "int (length ft) = featureTableLength h"
      using decoded_tables_exact(1) [OF d] f bl g by simp
    have lb: "int (length bt) = batchTableLength h"
      using decoded_tables_exact(2) [OF d] f bl g by simp
    have t: "totalLength h glb = 28 + int (length ft) + int (length bt) + int (length glb)"
      by (simp add: totalLength_def lf lb)
    have "nat (totalLength h glb) = length (headerBytes h (totalLength h glb) @ ft @ bt @ glb)"
      by (simp add: t)
    then have "fitTo (nat (totalLength h glb)) (headerBytes h (totalLength h glb) @ ft @ bt @ glb)
        = headerBytes h (totalLength h glb) @ ft @ bt @ glb"
      by (simp only: fitTo_exact)
    moreover have "encode h ft bt glb =
        Inr (fitTo (nat (totalLength h glb)) (headerBytes h (totalLength h glb) @ ft @ bt @ glb))"
      using assms by (intro encode_ok) simp_all
    ultimately have "encode h ft bt glb = Inr (headerBytes h (totalLength h glb) @ ft @ bt @ glb)"
      by simp
    with lf lb t show ?thesis by blast
  qed
  from F R show ?thesis by blast
qed

theorem encode_total_witness:
  "headerInRange scenarioA_header \<and> totalLength scenarioA_header [5, 6] = 40 \<and>
   (\<exists>out. encode scenarioA_header (replicate 10 0x20) [] [5, 6] = Inr out \<and>
      int (length out) = 40 \<and> readInt32LE out 8 = Inr 40 \<and> readInt32LE out 12 = Inr 10) \<and>
   int (length (replicate 10 (0x20 :: byte))) = featureTableLength scenarioA_header \<and>
   totalLength scenarioA_header [5, 6] =
     28 + int (length (replicate 10 (0x20 :: byte))) + int (length ([] :: byte list))
        + int (length [5, 6 :: byte]) \<and>
   encode scenarioA_header (replicate 10 0x20) [] [5, 6] =
     Inr (headerBytes scenarioA_header 40 @ replicate 10 0x20 @ [] @ [5, 6])"
proof -
  have r: "headerInRange scenarioA_header"
    by (simp add: headerInRange_def isInt32_def scenarioA_header_def)
  have t: "totalLength scenarioA_header [5, 6] = 40"
    by (simp add: totalLength_def featureTableLength_def batchTableLength_def scenarioA_header_def)
  have t28: "28 \<le> totalLength scenarioA_header [5, 6]"
    and t31: "totalLength scenarioA_header [5, 6] < 2 ^ 31" by (simp_all add: t)
  have f: "featureTableJSONByteLength scenarioA_header = 10" by (simp add: scenarioA_header_def)
  have fl: "0 \<le> featureTableLength scenarioA_header"
    by (simp add: featureTableLength_def scenarioA_header_def)
  have bl: "0 \<le> batchTableLength scenarioA_header"
    by (simp add: batchTableLength_def scenarioA_header_def)
  have ne: "replicate 100 (0x67 :: byte) \<noteq> []" by simp
  note T = encode_total [OF r t28 t31, of "replicate 10 0x20" "[]" 0 scenarioA
      "replicate 100 0x67"]
  from T obtain out where
    "encode scenarioA_header (replicate 10 0x20) [] [5, 6] = Inr out"
    "int (length out) = totalLength scenarioA_header [5, 6]"
    "readInt32LE out 8 = Inr (totalLength scenarioA_header [5, 6])"
    "readInt32LE out 12 = Inr (featureTableJSONByteLength scenarioA_header)" by blast
  then have A: "\<exists>out. encode scenarioA_header (replicate 10 0x20) [] [5, 6] = Inr out \<and>
      int (length out) = 40 \<and> readInt32LE out 8 = Inr 40 \<and> readInt32LE out 12 = Inr 10"
    unfolding t f by blast
  from T decode_scenarioA fl bl ne have
    B: "int (length (replicate 10 (0x20 :: byte))) = featureTableLength scenarioA_header \<and>
      totalLength scenarioA_header [5, 6] =
        28 + int (length (replicate 10 (0x20 :: byte))) + int (length ([] :: byte list))
           + int (length [5, 6 :: byte]) \<and>
      encode scenarioA_header (replicate 10 0x20) [] [5, 6] =
        Inr (headerBytes scenarioA_header (totalLength scenarioA_header [5, 6])
             @ replicate 10 0x20 @ [] @ [5, 6])"
    by blast
  from r t A B show ?thesis unfolding t by blast
qed

section \<open>The manifest rewriter\<close>

lemma replaceB3dm_match:
  assumes "prefix ''.b3dm'' (c # cs)"
  shows "replaceB3dm (c # cs) = ''.glb'' @ replaceB3dm (drop 4 cs)"
proof -
  have "replaceB3dm (c # cs) =
      (if prefix ''.b3dm'' (c # cs) then ''.glb'' @ replaceB3dm (drop 4 cs) else c # replaceB3dm cs)"
    by (rule replaceB3dm.simps(2))
  also have "\<dots> = ''.glb'' @ replaceB3dm (drop 4 cs)" using assms by (rule if_P)
  finally show ?thesis .
qed

lemma replaceB3dm_skip:
  assumes "\<not> prefix ''.b3dm'' (c # cs)"
  shows "replaceB3dm (c # cs) = c # replaceB3dm cs"
proof -
  have "replaceB3dm (c # cs) =
      (if prefix ''.b3dm'' (c # cs) then ''.glb'' @ replaceB3dm (drop 4 cs) else c # replaceB3dm cs)"
    by (rule replaceB3dm.simps(2))
  also have "\<dots> = c # replaceB3dm cs" using assms by (rule if_not_P)
  finally show ?thesis .
qed

lemma prefix_replaceB3dm:
  "prefix p (replaceB3dm cs) \<Longrightarrow> CHR ''.'' \<notin> set p \<Longrightarrow> prefix p cs"
proof (induction cs arbitrary: p rule: replaceB3dm.induct)
  case 1
  then show ?case by simp
next
  case (2 c cs)
  show ?case
  proof (cases p)
    case Nil
    then show ?thesis by simp
  next
    case (Cons x p')
    show ?thesis
    proof (cases "prefix ''.b3dm'' (c # cs)")
      case True
      from "2.prems"(1) have "prefix (x # p') (''.glb'' @ replaceB3dm (drop 4 cs))"
        unfolding replaceB3dm_match [OF True] Cons .
      then have "x = CHR ''.''" by simp
      with "2.prems"(2) Cons show ?thesis by simp
    next
      case False
      from "2.prems"(1) have "prefix (x # p') (c # replaceB3dm cs)"
        unfolding replaceB3dm_skip [OF False] Cons .
      then have "x = c \<and> prefix p' (replaceB3dm cs)" by (simp only: Cons_prefix_Cons)
      then have "x = c" "prefix p' (replaceB3dm cs)" by blast+
      moreover have "CHR ''.'' \<notin> set p'" using "2.prems"(2) Cons by simp
      ultimately show ?thesis using "2.IH"(2) [OF False] Cons by simp
    qed
  qed
qed

lemma no_stale_after_glb:
  "\<not> str_includes r ''.b3dm'' \<Longrightarrow> \<not> str_includes (''.glb'' @ r) ''.b3dm''"
  by simp

lemma replaceB3dm_no_stale: "\<not> str_includes (replaceB3dm s) ''.b3dm''"
proof (induction s rule: replaceB3dm.induct)
  case 1
  then show ?case by simp
next
  case (2 c cs)
  show ?case
  proof (cases "prefix ''.b3dm'' (c # cs)")
    case True
    show ?thesis unfolding replaceB3dm_match [OF True]
      using "2.IH"(1) [OF True] by (rule no_stale_after_glb)
  next
    case False
    have "\<not> prefix ''.b3dm'' (c # replaceB3dm cs)"
    proof
      assume a: "prefix ''.b3dm'' (c # replaceB3dm cs)"
      then have "CHR ''.'' = c \<and> prefix ''b3dm'' (replaceB3dm cs)"
        by (simp only: Cons_prefix_Cons)
      then have c: "c = CHR ''.''" and pr: "prefix ''b3dm'' (replaceB3dm cs)" by blast+
      have "CHR ''.'' \<notin> set ''b3dm''" by simp
      with pr have "prefix ''b3dm'' cs" by (rule prefix_replaceB3dm)
      then have "prefix ''.b3dm'' (c # cs)" unfolding c by (simp only: Cons_prefix_Cons simp_thms)
      with False show False by (rule notE)
    qed
    moreover have "\<not> str_includes (replaceB3dm cs) ''.b3dm''" using "2.IH"(2) [OF False] .
    ultimately show ?thesis unfolding replaceB3dm_skip [OF False] by simp
  qed
qed

lemma replaceB3dm_unchanged: "\<not> str_includes s ''.b3dm'' \<Longrightarrow> replaceB3dm s = s"
  by (induction s rule: replaceB3dm.induct) auto

lemma replaceB3dm_idem: "replaceB3dm (replaceB3dm s) = replaceB3dm s"
  by (rule replaceB3dm_unchanged) (rule replaceB3dm_no_stale)

lemma replaceB3dm_occurrence:
  "\<not> str_includes a ''.b3dm'' \<Longrightarrow> CHR ''.'' \<notin> set a \<Longrightarrow>
     replaceB3dm (a @ ''.b3dm'' @ b) = a @ ''.glb'' @ replaceB3dm b"
  by (induction a) auto

lemma rewrite_characterisation:
  "replaceB3dmWithGlb (t :: 'n json) = (if shadowFree t then Inr (spec_rewrite t) else Inl TypeError)"
  "replaceItems (ts :: 'n json list) = (if shadowFree_list ts then Inr (spec_rewrite_list ts) else Inl TypeError)"
  "replaceProps (ps :: (string \<times> 'n json) list) =
     (if shadowFree_mapping ps then Inr (spec_rewrite_mapping ps) else Inl TypeError)"
  by (induction t and ts and ps rule: replaceB3dmWithGlb_replaceItems_replaceProps.induct) simp_all

lemma spec_rewrite_keys: "map fst (spec_rewrite_mapping ps) = map fst ps"
  by (induction ps) auto

lemma spec_rewrite_list_map: "spec_rewrite_list ts = map spec_rewrite ts"
  by (induction ts) auto

lemma spec_rewrite_mapping_map: "spec_rewrite_mapping ps = map (\<lambda>(k, v). (k, spec_rewrite v)) ps"
  by (induction ps) auto

lemma rewrite_scenarioE:
  "replaceB3dmWithGlb scenarioE =
     Inr (JObject
      [(''asset'', JObject [(''version'', JString ''1.0'')]),
       (''geometricError'', JNumber 500),
       (''root'',
        JObject
         [(''content'', JObject [(''uri'', JString ''tiles/0.glb'')]),
          (''refine'', JString ''ADD''),
          (''children'',
           JArray
            [JObject [(''content'', JObject [(''uri'', JString ''tiles/1.glb'')]),
                      (''visible'', JBool True)],
             JObject [(''content'', JObject [(''uri'', JString ''tiles/2.glb'')]),
                      (''extras'', JNull)]])])])"
  by (simp add: scenarioE_def)

text \<open>
  C9. On trees without a key named \<^verbatim>\<open>hasOwnProperty\<close> the function is the transform of the
  claim (\<open>rewrite_characterisation\<close>, with every occurrence in a string replaced,
  \<open>replaceB3dm_no_stale\<close>, the keys kept, \<open>spec_rewrite_keys\<close>, and Scenario E,
  \<open>rewrite_scenarioE\<close>). The claim speaks of every manifest tree, and there the code
  fails: on the manifest whose \<^verbatim>\<open>extras\<close> object has the key \<^verbatim>\<open>hasOwnProperty\<close> the guard
  \<^verbatim>\<open>obj.hasOwnProperty(key)\<close> calls the value \<^verbatim>\<open>true\<close>, a \<^verbatim>\<open>TypeError\<close> is thrown, and no
  rewritten tree is returned: the stale reference \<^verbatim>\<open>0.b3dm\<close> stays.
\<close>

theorem rewrite_shadowed_hasOwnProperty:
  "replaceB3dmWithGlb shadowedManifest = Inl TypeError"
  by (simp add: shadowedManifest_def)

section \<open>The batch scheduler\<close>


lemma runNextBatch_one:
  assumes "activeProcesses s = int numCPUs - 1" and "completedTasks s < length files"
  shows "runNextBatch files numCPUs s =
     s\<lparr>completedTasks := completedTasks s + 1, activeProcesses := int numCPUs,
       forked := forked s @ [files ! completedTasks s]\<rparr>"
  using assms
  by (subst runNextBatch.simps, subst runNextBatch.simps) (simp add: runChildProcess_def)

lemma runNextBatch_none:
  assumes "\<not> (activeProcesses s < int numCPUs \<and> completedTasks s < length files)"
  shows "runNextBatch files numCPUs s = s"
  using assms by (subst runNextBatch.simps) auto

lemma runNextBatch_initial:
  "completedTasks s = 0 \<Longrightarrow> activeProcesses s = 0 \<Longrightarrow> forked s = [] \<Longrightarrow>
   runNextBatch files numCPUs s =
     s\<lparr>completedTasks := min (length files) numCPUs,
       activeProcesses := int (min (length files) numCPUs),
       forked := take (min (length files) numCPUs) files\<rparr>"
proof -
  have gen: "activeProcesses s = int (completedTasks s) \<Longrightarrow> forked s = take (completedTasks s) files \<Longrightarrow>
     completedTasks s \<le> min (length files) numCPUs \<Longrightarrow>
     runNextBatch files numCPUs s =
       s\<lparr>completedTasks := min (length files) numCPUs,
         activeProcesses := int (min (length files) numCPUs),
         forked := take (min (length files) numCPUs) files\<rparr>" for s
  proof (induction files numCPUs s rule: runNextBatch.induct)
    case (1 files numCPUs s)
    show ?case
    proof (cases "activeProcesses s < int numCPUs \<and> completedTasks s < length files")
      case True
      let ?s' = "runChildProcess (files ! completedTasks s) (s\<lparr>completedTasks := completedTasks s + 1\<rparr>)"
      have a: "activeProcesses ?s' = int (completedTasks ?s')"
        using "1.prems"(1) by (simp add: runChildProcess_def)
      have f: "forked ?s' = take (completedTasks ?s') files"
        using "1.prems"(2) True by (simp add: runChildProcess_def take_Suc_conv_app_nth)
      have b: "completedTasks ?s' \<le> min (length files) numCPUs"
        using True "1.prems"(1) by (simp add: runChildProcess_def)
      have "runNextBatch files numCPUs s = runNextBatch files numCPUs ?s'"
        using True by (subst runNextBatch.simps) simp
      also have "\<dots> = ?s'\<lparr>completedTasks := min (length files) numCPUs,
         activeProcesses := int (min (length files) numCPUs),
         forked := take (min (length files) numCPUs) files\<rparr>"
        using "1.IH" [OF True a f b] .
      finally show ?thesis by (simp add: runChildProcess_def)
    next
      case False
      then have e: "completedTasks s = min (length files) numCPUs"
        using "1.prems"(1,3) by (auto simp: min_def)
      show ?thesis using False "1.prems"(1,2) e by (simp add: runNextBatch_none)
    qed
  qed
  assume "completedTasks s = 0" "activeProcesses s = 0" "forked s = []"
  then show ?thesis by (intro gen) simp_all
qed


lemma numbered_Nil: "numbered [] = []"
  by (simp add: numbered_def)

lemma numbered_snoc:
  "numbered (messages @ [message]) = numbered messages @ [(int (Suc (length messages)), message)]"
proof -
  let ?n = "length messages"
  have u: "[1 ..< Suc (Suc ?n)] = [1 ..< Suc ?n] @ [Suc ?n]"
    by (rule upt_Suc_append) simp
  have l: "length (map int [1 ..< Suc ?n]) = length messages"
    by (simp del: upt_Suc)
  have "numbered (messages @ [message]) = zip (map int [1 ..< Suc (Suc ?n)]) (messages @ [message])"
    by (simp add: numbered_def del: upt_Suc)
  also have "\<dots> = zip (map int [1 ..< Suc ?n] @ [int (Suc ?n)]) (messages @ [message])"
    by (simp only: u map_append list.map)
  also have "\<dots> = zip (map int [1 ..< Suc ?n]) messages @ zip [int (Suc ?n)] [message]"
    using l by (rule zip_append)
  also have "\<dots> = numbered messages @ [(int (Suc ?n), message)]"
    by (simp add: numbered_def del: upt_Suc)
  finally show ?thesis .
qed

lemma length_numbered: "length (numbered messages) = length messages"
  by (simp add: numbered_def del: upt_Suc)

lemma map_snd_numbered: "map snd (numbered messages) = messages"
  by (simp add: numbered_def del: upt_Suc)

lemma map_fst_numbered: "map fst (numbered messages) = map int [1 ..< Suc (length messages)]"
  by (simp add: numbered_def del: upt_Suc)

lemma schedInv_initial: "schedInv files numCPUs [] (runNextBatch files numCPUs initialSched)"
  by (simp add: runNextBatch_initial initialSched_def schedInv_def numbered_Nil)

lemma schedInv_handleCompletion:
  assumes inv: "schedInv files numCPUs messages s" and n: "1 \<le> numCPUs"
    and c: "length messages < length files"
  shows "schedInv files numCPUs (messages @ [message]) (handleCompletion files numCPUs message s)"
proof -
  let ?K = "length files"
  let ?c = "length messages"
  let ?d = "completedTasks s"
  let ?s1 = "updateProgress message (s\<lparr>activeProcesses := activeProcesses s - 1\<rparr>)"
  from inv have p: "progress s = numbered messages" and d: "?d = min ?K (numCPUs + ?c)"
    and a: "activeProcesses s = int ?d - int ?c" and f: "forked s = take ?d files"
    and fin: "finished s = 0"
    using c by (simp_all add: schedInv_def)
  have pr: "progress ?s1 = numbered (messages @ [message])"
    unfolding numbered_snoc using p a by (simp add: updateProgress_def)
  have s1: "completedTasks ?s1 = ?d" "activeProcesses ?s1 = int ?d - int ?c - 1"
    "forked ?s1 = take ?d files" "finished ?s1 = 0"
    using a f fin by (simp_all add: updateProgress_def)
  show ?thesis
  proof (cases "?d = ?K")
    case True
    show ?thesis
    proof (cases "Suc ?c = ?K")
      case True
      with \<open>?d = ?K\<close> have "handleCompletion files numCPUs message s = finishProcessing ?s1"
        using s1 by (simp add: handleCompletion_def Let_def)
      moreover have "files \<noteq> []" using c by auto
      ultimately show ?thesis using True \<open>?d = ?K\<close> s1 d pr
        by (simp add: schedInv_def finishProcessing_def)
    next
      case False
      with c \<open>?d = ?K\<close> have ne: "activeProcesses ?s1 \<noteq> 0" using s1 by simp
      have "runNextBatch files numCPUs ?s1 = ?s1"
        using \<open>?d = ?K\<close> s1 by (intro runNextBatch_none) simp
      with ne \<open>?d = ?K\<close> have "handleCompletion files numCPUs message s = ?s1"
        using s1 by (simp add: handleCompletion_def Let_def)
      moreover have "?K \<le> numCPUs + ?c" using d \<open>?d = ?K\<close> by (simp add: min_def split: if_splits)
      ultimately show ?thesis using False \<open>?d = ?K\<close> s1 c pr
        by (simp add: schedInv_def min_def)
    qed
  next
    case False
    with d have dn: "?d = numCPUs + ?c" and lt: "numCPUs + ?c < ?K" by (simp_all add: min_def split: if_splits)
    have a1: "activeProcesses ?s1 = int numCPUs - 1" using s1 dn by simp
    have r: "runNextBatch files numCPUs ?s1 =
        ?s1\<lparr>completedTasks := completedTasks ?s1 + 1, activeProcesses := int numCPUs,
          forked := forked ?s1 @ [files ! completedTasks ?s1]\<rparr>"
      using a1 lt dn s1 by (intro runNextBatch_one) simp_all
    have "handleCompletion files numCPUs message s = runNextBatch files numCPUs ?s1"
      using False a1 s1 by (simp add: handleCompletion_def Let_def)
    with r have h: "handleCompletion files numCPUs message s =
        ?s1\<lparr>completedTasks := ?d + 1, activeProcesses := int numCPUs,
          forked := take ?d files @ [files ! ?d]\<rparr>"
      using s1 by simp
    have t: "take ?d files @ [files ! ?d] = take (Suc ?d) files"
      using lt dn by (simp add: take_Suc_conv_app_nth)
    show ?thesis unfolding h t
      using s1 dn lt n pr by (simp add: schedInv_def min_def)
  qed
qed

lemma schedInv_fold:
  assumes "schedInv files numCPUs messages s" and "1 \<le> numCPUs"
    and "length messages + completions events \<le> length files"
  shows "schedInv files numCPUs (messages @ signalMessages events)
           (fold (onEvent files numCPUs) events s)"
  using assms
proof (induction events arbitrary: messages s)
  case Nil
  then show ?case by (simp add: signalMessages_def)
next
  case (Cons e events)
  show ?case
  proof (cases "isCompletion e")
    case False
    then obtain code where e: "e = Exit code" by (cases e) auto
    from Cons.prems have "length messages + completions events \<le> length files"
      by (simp add: completions_def e)
    from Cons.IH [OF Cons.prems(1,2) this] show ?thesis by (simp add: e signalMessages_def)
  next
    case True
    then have cs: "completions (e # events) = Suc (completions events)" by (simp add: completions_def)
    with Cons.prems have lt: "length messages < length files"
      and le: "length (messages @ [signalMessage e]) + completions events \<le> length files"
      by simp_all
    from True have h: "onEvent files numCPUs e s = handleCompletion files numCPUs (signalMessage e) s"
      by (cases e) auto
    have "schedInv files numCPUs (messages @ [signalMessage e]) (onEvent files numCPUs e s)"
      unfolding h using Cons.prems(1,2) lt by (rule schedInv_handleCompletion)
    from Cons.IH [OF this Cons.prems(2) le] show ?thesis using True by (simp add: signalMessages_def)
  qed
qed

lemma length_signalMessages: "length (signalMessages events) = completions events"
  by (simp add: signalMessages_def completions_def)

lemma processFiles_inv:
  assumes "1 \<le> numCPUs" and "completions events \<le> length files"
  shows "schedInv files numCPUs (signalMessages events) (processFiles files numCPUs events)"
proof -
  have "schedInv files numCPUs ([] @ signalMessages events) (processFiles files numCPUs events)"
    unfolding processFiles_def using schedInv_initial assms(1)
    by (rule schedInv_fold) (simp add: assms(2))
  then show ?thesis by simp
qed

lemma compress_worker_report:
  "compress_worker loadImage file d k j =
     (if reportsSuccess loadImage d k j
      then (completionMessage (executionTime j)
              (Toktx \<in> set (planTransforms (getModelStatistics loadImage (the (readDocument j))) d k))
              (Draco \<in> set (planTransforms (getModelStatistics loadImage (the (readDocument j))) d k)), 0)
      else (fst (compress_worker loadImage file d k j), 1))"
  by (auto simp: compress_worker_def reportsSuccess_def planTransforms_def Let_def
      split: option.splits)

lemma compress_worker_failure:
  "\<not> reportsSuccess loadImage d k j \<Longrightarrow>
   \<exists>reason. fst (compress_worker loadImage file d k j) = errorMessage file reason"
  by (auto simp: compress_worker_def reportsSuccess_def Let_def split: option.splits)

lemma prefix_errorMessage: "prefix (''Error processing '' @ file @ '': '') (errorMessage file reason)"
  by (simp add: errorMessage_def)

lemma not_prefix_completionMessage:
  "\<not> prefix (''Error processing '' @ file @ '': '') (completionMessage time a b)"
  by (simp add: completionMessage_def)

lemma reportsSuccess_rejection:
  "reportsSuccess loadImage d k
     (j\<lparr>documentTransform := (\<lambda>transforms doc. (r, snd (documentTransform j transforms doc)))\<rparr>) =
   reportsSuccess loadImage d k j"
  by (simp add: reportsSuccess_def documentWritten_def Let_def split: option.splits)

lemma compress_worker_rejection:
  "compress_worker loadImage file d k
     (j\<lparr>documentTransform := (\<lambda>transforms doc. (r, snd (documentTransform j transforms doc)))\<rparr>) =
   compress_worker loadImage file d k j"
  by (simp add: compress_worker_def documentWritten_def Let_def split: option.splits)


lemma numCPUs_of_positive: "1 \<le> numCPUs_of cpus"
  by (simp add: numCPUs_of_def)

lemma okJob_report:
  "compress_worker (\<lambda>_. None) file True True okJob =
     ('', Execution time: 1.00s. KTX Applied. Draco Applied'', 0)"
  by (simp add: compress_worker_def okJob_def completionMessage_def pngScene_def Let_def
      hasKTXTexture_def getModelStatistics_def getTextureInfo_def)

lemma transformErrorJob_report:
  "compress_worker (\<lambda>_. None) file True True transformErrorJob =
     ('', Execution time: 1.00s. KTX Applied. Draco Applied'', 0)"
  by (simp add: compress_worker_def transformErrorJob_def okJob_def completionMessage_def
      pngScene_def Let_def hasKTXTexture_def getModelStatistics_def getTextureInfo_def)

lemma unreadableJob_report:
  "compress_worker (\<lambda>_. None) file True True unreadableJob =
     (''Error processing '' @ file @ '': Failed to read the file.'', 1)"
  by (simp add: compress_worker_def unreadableJob_def okJob_def errorMessage_def)

lemma jobEvents_scenarioD_transformError:
  "jobEvents scenarioD_transformError_jobs =
     [Message '', Execution time: 1.00s. KTX Applied. Draco Applied'', Exit 0,
      Message '', Execution time: 1.00s. KTX Applied. Draco Applied'', Exit 0,
      Message '', Execution time: 1.00s. KTX Applied. Draco Applied'', Exit 0,
      Message '', Execution time: 1.00s. KTX Applied. Draco Applied'', Exit 0,
      Message '', Execution time: 1.00s. KTX Applied. Draco Applied'', Exit 0]"
  by (simp add: jobEvents_def scenarioD_transformError_jobs_def scenarioD_files_def
      workerEvents_def okJob_report transformErrorJob_report)

lemma jobEvents_scenarioD:
  "jobEvents scenarioD_jobs =
     [Message '', Execution time: 1.00s. KTX Applied. Draco Applied'', Exit 0,
      Message '', Execution time: 1.00s. KTX Applied. Draco Applied'', Exit 0,
      Message ''Error processing 3.b3dm: Failed to read the file.'', Exit 1,
      Message '', Execution time: 1.00s. KTX Applied. Draco Applied'', Exit 0,
      Message '', Execution time: 1.00s. KTX Applied. Draco Applied'', Exit 0]"
  by (simp add: jobEvents_def scenarioD_jobs_def scenarioD_files_def
      workerEvents_def okJob_report unreadableJob_report)

lemma numbered5:
  "numbered [a, b, c, d, e] = [(1, a), (2, b), (3, c), (4, d), (5, e)]"
  by (simp add: numbered_def upt_conv_Cons)

text \<open>
  C2, as stated, fails, in two ways. With two files and a limit of one, a first worker that
  exits with code 1 without having sent a message leaves the coordinator with no progress
  line, the end not reported, one process still counted as active and the second file never
  started; the exit is the last event of that run, since the only child started has exited.
  And a job whose transforms are rejected is not reported as failed: the worker catches the
  rejection, writes the document and sends the success line, so in Scenario D with the
  transforms of the third job rejected all five progress lines are success lines.
\<close>

theorem scheduler_failure_counterexample:
  "progress (processFiles crashFiles 1 [Exit 1]) = [] \<and>
   finished (processFiles crashFiles 1 [Exit 1]) = 0 \<and>
   forked (processFiles crashFiles 1 [Exit 1]) = [''a.b3dm''] \<and>
   completedTasks (processFiles crashFiles 1 [Exit 1]) = 1 \<and>
   activeProcesses (processFiles crashFiles 1 [Exit 1]) = 1 \<and>
   fst (documentTransform transformErrorJob [Toktx, Draco] pngScene) \<and>
   compress_worker (\<lambda>_. None) ''3.b3dm'' True True transformErrorJob =
     ('', Execution time: 1.00s. KTX Applied. Draco Applied'', 0) \<and>
   progress (processFiles scenarioD_files 2 (jobEvents scenarioD_transformError_jobs)) =
     [(1, '', Execution time: 1.00s. KTX Applied. Draco Applied''),
      (2, '', Execution time: 1.00s. KTX Applied. Draco Applied''),
      (3, '', Execution time: 1.00s. KTX Applied. Draco Applied''),
      (4, '', Execution time: 1.00s. KTX Applied. Draco Applied''),
      (5, '', Execution time: 1.00s. KTX Applied. Draco Applied'')]"
proof -
  have crash: "progress (processFiles crashFiles 1 [Exit 1]) = [] \<and>
      finished (processFiles crashFiles 1 [Exit 1]) = 0 \<and>
      forked (processFiles crashFiles 1 [Exit 1]) = [''a.b3dm''] \<and>
      completedTasks (processFiles crashFiles 1 [Exit 1]) = 1 \<and>
      activeProcesses (processFiles crashFiles 1 [Exit 1]) = 1"
    by (simp add: processFiles_def runNextBatch_initial initialSched_def crashFiles_def)
  have rej: "fst (documentTransform transformErrorJob [Toktx, Draco] pngScene)"
    by (simp add: transformErrorJob_def)
  have c: "completions (jobEvents scenarioD_transformError_jobs) \<le> length scenarioD_files"
    by (simp add: jobEvents_scenarioD_transformError completions_def scenarioD_files_def)
  have "progress (processFiles scenarioD_files 2 (jobEvents scenarioD_transformError_jobs)) =
      numbered (signalMessages (jobEvents scenarioD_transformError_jobs))"
    using processFiles_inv [OF _ c, of 2] by (simp add: schedInv_def)
  also have "\<dots> =
     [(1, '', Execution time: 1.00s. KTX Applied. Draco Applied''),
      (2, '', Execution time: 1.00s. KTX Applied. Draco Applied''),
      (3, '', Execution time: 1.00s. KTX Applied. Draco Applied''),
      (4, '', Execution time: 1.00s. KTX Applied. Draco Applied''),
      (5, '', Execution time: 1.00s. KTX Applied. Draco Applied'')]"
    unfolding jobEvents_scenarioD_transformError by (simp add: signalMessages_def numbered5)
  finally show ?thesis using crash rej transformErrorJob_report [of "''3.b3dm''"] by (intro conjI) simp_all
qed

text \<open>
  C2, amended. Let the limit be at least 1 and let the trace hold at most one completion
  signal (a message or an error event) per file, exit events being free. Then the progress
  lines are the texts of the completion signals in the order of arrival, numbered from 1,
  each message as the worker sent it and each error event as
  \<^verbatim>\<open>Error processing <file>: <error>\<close>, whether they report success or failure; the files
  started are the first \<open>numCPUs + c\<close> of the list; the active count is the number
  started minus the number signalled, and is positive as long as a file has not signalled;
  and the end is reported exactly when the list is not empty and the number of signals has
  reached the number of files (for an empty list it is never reported), at which point
  every file has been started, there are exactly as many progress lines as files and no
  process is active. A worker that runs to its end sends one message: with exit code 1 a
  text that starts with \<^verbatim>\<open>Error processing <file>: \<close> when the file is missing, cannot be
  read, the document cannot be written or an exception escapes, and with exit code 0 the
  success line otherwise; whether the transforms were rejected makes no difference to the
  report.
\<close>

theorem scheduler_completion:
  assumes "1 \<le> numCPUs" and "completions events \<le> length files"
  shows "progress (processFiles files numCPUs events) = numbered (signalMessages events) \<and>
     map snd (progress (processFiles files numCPUs events)) =
       map signalMessage (filter isCompletion events) \<and>
     map fst (progress (processFiles files numCPUs events)) =
       map int [1 ..< Suc (completions events)] \<and>
     length (progress (processFiles files numCPUs events)) = completions events \<and>
     completedTasks (processFiles files numCPUs events) =
       min (length files) (numCPUs + completions events) \<and>
     forked (processFiles files numCPUs events) = take (numCPUs + completions events) files \<and>
     activeProcesses (processFiles files numCPUs events) =
       int (completedTasks (processFiles files numCPUs events)) - int (completions events) \<and>
     (completions events < length files \<longrightarrow>
        0 < activeProcesses (processFiles files numCPUs events)) \<and>
     finished (processFiles files numCPUs events) =
       (if 0 < length files \<and> completions events = length files then 1 else 0) \<and>
     (completions events = length files \<longrightarrow>
        length (progress (processFiles files numCPUs events)) = length files \<and>
        forked (processFiles files numCPUs events) = files \<and>
        completedTasks (processFiles files numCPUs events) = length files \<and>
        activeProcesses (processFiles files numCPUs events) = 0) \<and>
     signalMessages (workerEvents loadImage file d k j) =
       [fst (compress_worker loadImage file d k j)] \<and>
     snd (compress_worker loadImage file d k j) = (if reportsSuccess loadImage d k j then 0 else 1) \<and>
     prefix (''Error processing '' @ file @ '': '') (fst (compress_worker loadImage file d k j)) =
       (\<not> reportsSuccess loadImage d k j) \<and>
     (reportsSuccess loadImage d k j \<and> readDocument j = Some doc \<longrightarrow>
        fst (compress_worker loadImage file d k j) =
          completionMessage (executionTime j)
            (Toktx \<in> set (planTransforms (getModelStatistics loadImage doc) d k))
            (Draco \<in> set (planTransforms (getModelStatistics loadImage doc) d k))) \<and>
     compress_worker loadImage file d k
       (j\<lparr>documentTransform := (\<lambda>transforms doc. (rejected, snd (documentTransform j transforms doc)))\<rparr>) =
     compress_worker loadImage file d k j"
proof -
  let ?s = "processFiles files numCPUs events"
  have inv: "schedInv files numCPUs (signalMessages events) ?s"
    using assms by (rule processFiles_inv)
  then have p: "progress ?s = numbered (signalMessages events)" by (simp add: schedInv_def)
  have p2: "map snd (progress ?s) = map signalMessage (filter isCompletion events)"
    unfolding p map_snd_numbered by (simp add: signalMessages_def)
  have p1: "map fst (progress ?s) = map int [1 ..< Suc (completions events)]"
    unfolding p map_fst_numbered length_signalMessages ..
  have p0: "length (progress ?s) = completions events"
    unfolding p length_numbered length_signalMessages ..
  have rest: "completedTasks ?s = min (length files) (numCPUs + completions events) \<and>
     forked ?s = take (numCPUs + completions events) files \<and>
     activeProcesses ?s = int (completedTasks ?s) - int (completions events) \<and>
     (completions events < length files \<longrightarrow> 0 < activeProcesses ?s) \<and>
     finished ?s = (if 0 < length files \<and> completions events = length files then 1 else 0) \<and>
     (completions events = length files \<longrightarrow>
        length (progress ?s) = length files \<and> forked ?s = files \<and>
        completedTasks ?s = length files \<and> activeProcesses ?s = 0)"
    using inv assms(1) p0 by (auto simp: schedInv_def min_def length_signalMessages)
  have w1: "signalMessages (workerEvents loadImage file d k j) =
      [fst (compress_worker loadImage file d k j)]"
    by (simp add: signalMessages_def workerEvents_def Let_def)
  have w2: "snd (compress_worker loadImage file d k j) =
      (if reportsSuccess loadImage d k j then 0 else 1)"
    by (subst compress_worker_report) simp
  have w3: "prefix (''Error processing '' @ file @ '': '') (fst (compress_worker loadImage file d k j)) =
       (\<not> reportsSuccess loadImage d k j)"
  proof (cases "reportsSuccess loadImage d k j")
    case True
    then have "fst (compress_worker loadImage file d k j) =
        completionMessage (executionTime j)
          (Toktx \<in> set (planTransforms (getModelStatistics loadImage (the (readDocument j))) d k))
          (Draco \<in> set (planTransforms (getModelStatistics loadImage (the (readDocument j))) d k))"
      by (subst compress_worker_report) simp
    with True show ?thesis by (simp only: not_prefix_completionMessage simp_thms)
  next
    case False
    from compress_worker_failure [OF this] obtain reason where
      "fst (compress_worker loadImage file d k j) = errorMessage file reason" by blast
    with False show ?thesis by (simp only: prefix_errorMessage simp_thms)
  qed
  have w4: "reportsSuccess loadImage d k j \<and> readDocument j = Some doc \<longrightarrow>
        fst (compress_worker loadImage file d k j) =
          completionMessage (executionTime j)
            (Toktx \<in> set (planTransforms (getModelStatistics loadImage doc) d k))
            (Draco \<in> set (planTransforms (getModelStatistics loadImage doc) d k))"
  proof
    assume a: "reportsSuccess loadImage d k j \<and> readDocument j = Some doc"
    then have "the (readDocument j) = doc" by simp
    with a show "fst (compress_worker loadImage file d k j) =
          completionMessage (executionTime j)
            (Toktx \<in> set (planTransforms (getModelStatistics loadImage doc) d k))
            (Draco \<in> set (planTransforms (getModelStatistics loadImage doc) d k))"
      by (subst compress_worker_report) simp
  qed
  note w5 = compress_worker_rejection [of loadImage "file" d k rejected j]
  from p p2 p1 p0 rest w1 w2 w3 w4 w5 show ?thesis by (intro conjI) blast+
qed

theorem scheduler_completion_witness:
  "completions (jobEvents scenarioD_jobs) = length scenarioD_files \<and>
   progress (processFiles scenarioD_files 2 (jobEvents scenarioD_jobs)) =
     [(1, '', Execution time: 1.00s. KTX Applied. Draco Applied''),
      (2, '', Execution time: 1.00s. KTX Applied. Draco Applied''),
      (3, ''Error processing 3.b3dm: Failed to read the file.''),
      (4, '', Execution time: 1.00s. KTX Applied. Draco Applied''),
      (5, '', Execution time: 1.00s. KTX Applied. Draco Applied'')] \<and>
   forked (processFiles scenarioD_files 2 (jobEvents scenarioD_jobs)) = scenarioD_files \<and>
   finished (processFiles scenarioD_files 2 (jobEvents scenarioD_jobs)) = 1 \<and>
   activeProcesses (processFiles scenarioD_files 2 (jobEvents scenarioD_jobs)) = 0 \<and>
   completions (take 3 (jobEvents scenarioD_jobs)) < length scenarioD_files \<and>
   finished (processFiles scenarioD_files 2 (take 3 (jobEvents scenarioD_jobs))) = 0 \<and>
   0 < activeProcesses (processFiles scenarioD_files 2 (take 3 (jobEvents scenarioD_jobs))) \<and>
   \<not> reportsSuccess (\<lambda>_. None) True True unreadableJob \<and>
   snd (compress_worker (\<lambda>_. None) ''3.b3dm'' True True unreadableJob) = 1 \<and>
   reportsSuccess (\<lambda>_. None) True True okJob \<and>
   fst (compress_worker (\<lambda>_. None) ''1.b3dm'' True True okJob) =
     completionMessage ''1.00'' True True"
proof -
  let ?ev = "jobEvents scenarioD_jobs"
  have c: "completions ?ev = 5" by (simp add: completions_def jobEvents_scenarioD)
  have l: "length scenarioD_files = 5" by (simp add: scenarioD_files_def)
  have n: "1 \<le> (2::nat)" by simp
  have le: "completions ?ev \<le> length scenarioD_files" by (simp add: c l)
  have u: "\<not> reportsSuccess (\<lambda>_. None) True True unreadableJob"
    by (simp add: reportsSuccess_def unreadableJob_def okJob_def)
  have o: "reportsSuccess (\<lambda>_. None) True True okJob"
    by (simp add: reportsSuccess_def okJob_def)
  have od: "readDocument okJob = Some pngScene" by (simp add: okJob_def)
  have ot: "executionTime okJob = ''1.00''" by (simp add: okJob_def)
  have pl: "planTransforms (getModelStatistics (\<lambda>_. None) pngScene) True True = [Toktx, Draco]"
    by (simp add: planTransforms_def hasKTXTexture_def getModelStatistics_def
        getTextureInfo_def pngScene_def Let_def)
  note T = scheduler_completion [OF n le, of "\<lambda>_. None" "''3.b3dm''" True True unreadableJob]
  note T1 = scheduler_completion [OF n le, of "\<lambda>_. None" "''1.b3dm''" True True okJob pngScene]
  from T have "progress (processFiles scenarioD_files 2 ?ev) = numbered (signalMessages ?ev)"
    by blast
  then have p: "progress (processFiles scenarioD_files 2 ?ev) =
     [(1, '', Execution time: 1.00s. KTX Applied. Draco Applied''),
      (2, '', Execution time: 1.00s. KTX Applied. Draco Applied''),
      (3, ''Error processing 3.b3dm: Failed to read the file.''),
      (4, '', Execution time: 1.00s. KTX Applied. Draco Applied''),
      (5, '', Execution time: 1.00s. KTX Applied. Draco Applied'')]"
    unfolding jobEvents_scenarioD by (simp add: signalMessages_def numbered5)
  from T have f: "finished (processFiles scenarioD_files 2 ?ev) = 1"
    by (simp add: c l)
  from T c l have a: "forked (processFiles scenarioD_files 2 ?ev) = scenarioD_files \<and>
      activeProcesses (processFiles scenarioD_files 2 ?ev) = 0" by simp
  from T u have s: "snd (compress_worker (\<lambda>_. None) ''3.b3dm'' True True unreadableJob) = 1"
    by simp
  from T1 o od have m: "fst (compress_worker (\<lambda>_. None) ''1.b3dm'' True True okJob) =
      completionMessage ''1.00'' True True"
    unfolding pl ot by simp
  have c3: "completions (take 3 ?ev) = 2"
    by (simp add: completions_def jobEvents_scenarioD)
  have le3: "completions (take 3 ?ev) \<le> length scenarioD_files" by (simp add: c3 l)
  have lt3: "completions (take 3 ?ev) < length scenarioD_files" by (simp add: c3 l)
  note T3 = scheduler_completion [OF n le3]
  from T3 lt3 have a3: "0 < activeProcesses (processFiles scenarioD_files 2 (take 3 ?ev))"
    by blast
  from T3 have f3: "finished (processFiles scenarioD_files 2 (take 3 ?ev)) = 0"
    by (simp add: c3 l)
  from p f a c l lt3 f3 a3 u s o m show ?thesis by (intro conjI) simp_all
qed

end
